theory Spec2Isabelle
  imports Main "HOL-Library.Multiset" "HOL-Library.Char_ord" "HOL-Library.List_Lexorder"
begin

section \<open>The Notion client of the blog: \<^verbatim>\<open>src/lib/notion/client.ts\<close>\<close>

text \<open>
  The module keeps two module-level caches (\<^verbatim>\<open>postsCache\<close>, \<^verbatim>\<open>dbCache\<close>), drains the
  cursor-paginated Notion API into them, normalises each raw page into a \<^verbatim>\<open>Post\<close>, and
  answers every query from the cached collection.

  The embedding is sequential: every exported function is \<^verbatim>\<open>async\<close>, and one call is
  modelled as running to completion before the next one starts. The module state and the
  remote service are threaded explicitly; a rejected promise is the \<open>Inl\<close> branch of a
  sum. The declarations of \<^verbatim>\<open>./responses\<close> and \<^verbatim>\<open>../interfaces\<close> are type-only imports; the
  records below carry exactly the members that the code reads or writes. A member that
  the code reaches through \<^verbatim>\<open>?.\<close> or tests for truthiness is an \<open>option\<close>, where \<open>None\<close>
  stands for both \<^verbatim>\<open>undefined\<close> and \<^verbatim>\<open>null\<close>.

  Members keep their names, but for \<open>id'\<close> (\<^verbatim>\<open>id\<close>) and \<open>file'\<close> (\<^verbatim>\<open>file\<close>). Several shapes
  share a member name (\<^verbatim>\<open>type\<close>, \<^verbatim>\<open>id\<close>, \<^verbatim>\<open>title\<close>, \<^verbatim>\<open>Type\<close>, \<^verbatim>\<open>Title\<close>); the short name
  belongs to the record declared last, so the function that reads or builds a shape is
  defined right after it.
\<close>

subsection \<open>Errors, cursors and paginated responses\<close>

datatype error =
    APIError string \<comment> \<open>whatever a call of the Notion SDK rejects with\<close>
  | TypeError \<comment> \<open>reading a member of \<^verbatim>\<open>undefined\<close>\<close>

text \<open>
  \<^verbatim>\<open>params.start_cursor\<close>: the key does not exist before the first fetch; afterwards it
  holds the \<^verbatim>\<open>next_cursor\<close> of the previous response, a string or \<^verbatim>\<open>null\<close>.
\<close>

datatype cursor_param = Absent | Passed "string option"

record 'a list_response =
  results :: "'a list"
  has_more :: bool
  next_cursor :: "string option"

text \<open>Every call that leaves the process, as a transport mock would record it.\<close>

datatype request =
    RetrieveDatabase
  | QueryDatabase cursor_param
  | ListBlockChildren string cursor_param

subsection \<open>JavaScript helpers\<close>

text \<open>
  \<^verbatim>\<open>a || b\<close> where \<^verbatim>\<open>a\<close> is a string or \<^verbatim>\<open>undefined\<close>: the empty string is falsy as well.
\<close>

definition js_or :: "string option \<Rightarrow> string option \<Rightarrow> string option" where
  "js_or a b = (case a of None \<Rightarrow> b | Some s \<Rightarrow> if s = [] then b else Some s)"

definition str_or :: "string option \<Rightarrow> string \<Rightarrow> string" where
  "str_or a d = (case a of None \<Rightarrow> d | Some s \<Rightarrow> if s = [] then d else s)"

text \<open>
  \<^verbatim>\<open>Array.prototype.slice(start, end)\<close> on integral arguments: a negative index counts
  from the end, and both are clamped to the array.
\<close>

definition slice :: "'a list \<Rightarrow> int \<Rightarrow> int \<Rightarrow> 'a list" where
  "slice xs start end =
     (let len = int (length xs);
          k = (if start < 0 then max (len + start) 0 else min start len);
          final = (if end < 0 then max (len + end) 0 else min end len)
      in take (nat (final - k)) (drop (nat k) xs))"

text \<open>
  \<^verbatim>\<open>Array.prototype.sort(cmp)\<close>. ECMAScript requires the sort to be stable, and for a
  consistent comparator the sorted, stable arrangement of an array is unique, so the
  engine's algorithm cannot be observed; a stable insertion sort stands for it. An element
  moves in front of another only when the comparator is not positive.
\<close>

fun insert_by :: "('a \<Rightarrow> 'a \<Rightarrow> int) \<Rightarrow> 'a \<Rightarrow> 'a list \<Rightarrow> 'a list" where
  "insert_by cmp x [] = [x]"
| "insert_by cmp x (y # ys) = (if cmp x y \<le> 0 then x # y # ys else y # insert_by cmp x ys)"

definition js_sort :: "('a \<Rightarrow> 'a \<Rightarrow> int) \<Rightarrow> 'a list \<Rightarrow> 'a list" where
  "js_sort cmp xs = foldr (insert_by cmp) xs []"

text \<open>
  \<^verbatim>\<open>retry(fn, { retries: n })\<close> of the async-retry package: \<^verbatim>\<open>fn\<close> runs once and, while it
  rejects, up to \<open>n\<close> more times; the last rejection is passed on. (Its waiting time between
  attempts is not modelled.)
\<close>

fun retry :: "('w \<Rightarrow> (error + 'a) \<times> 'w) \<Rightarrow> nat \<Rightarrow> 'w \<Rightarrow> (error + 'a) \<times> 'w" where
  "retry fn 0 w = fn w"
| "retry fn (Suc n) w =
     (case fn w of
        (Inr a, w') \<Rightarrow> (Inr a, w')
      | (Inl e, w') \<Rightarrow> retry fn n w')"

subsection \<open>Blocks\<close>

text \<open>
  A raw block carries its payload under the key named by its own \<^verbatim>\<open>type\<close>; \<open>members\<close> is
  that dynamic part of the object.
\<close>

record 'p block_object =
  id' :: string
  type :: string
  has_children :: bool
  members :: "string \<rightharpoonup> 'p"

text \<open>
  \<^verbatim>\<open>{ Id, Type, HasChildren, [blockObject.type]: blockObject[blockObject.type] }\<close>: \<open>Payload\<close>
  is the value stored under the computed key.
\<close>

record 'p Block =
  Id :: string
  Type :: string
  HasChildren :: bool
  Payload :: "'p option"

definition buildBlock :: "'p block_object \<Rightarrow> 'p Block" where
  "buildBlock blockObject =
     \<lparr> Id = id' blockObject,
       Type = type blockObject,
       HasChildren = has_children blockObject,
       Payload = members blockObject (type blockObject) \<rparr>"

text \<open>A sample block, used in the examples.\<close>

definition block :: "string \<Rightarrow> unit block_object" where
  "block i = \<lparr> id' = i, type = ''paragraph'', has_children = False, members = Map.empty \<rparr>"

subsection \<open>Shared shapes\<close>

record rich_text_object =
  plain_text :: string

record url_object =
  url :: string
  expiry_time :: "string option"

text \<open>
  Modelled from the spec: \<^verbatim>\<open>FileObject\<close> and \<^verbatim>\<open>SelectProperty\<close> of \<^verbatim>\<open>../interfaces\<close>, with the
  fields the data model of the specification gives them (\<open>{Type, Url, ExpiryTime?}\<close> and
  \<open>{name, color}\<close>).
\<close>

record FileObject =
  Type :: string
  Url :: string
  ExpiryTime :: "string option"

record SelectProperty =
  name :: string
  color :: string

subsection \<open>Database metadata\<close>

record icon_object =
  type :: string
  emoji :: string
  members :: "string \<rightharpoonup> url_object"

record retrieve_database_response =
  title :: "rich_text_object list"
  description :: "rich_text_object list"
  icon :: "icon_object option"
  cover :: "icon_object option"

text \<open>
  Modelled from the spec: \<^verbatim>\<open>Database\<close> of \<^verbatim>\<open>../interfaces\<close>. The icon is either
  \<^verbatim>\<open>{ Type: 'emoji', Emoji }\<close> or a file object.
\<close>

datatype Icon = Emoji string | File FileObject

record Database =
  Title :: string
  Description :: string
  Icon :: "Icon option"
  Cover :: "FileObject option"

text \<open>The body of \<^verbatim>\<open>getDatabase\<close> between the fetch and the assignment to \<^verbatim>\<open>dbCache\<close>.\<close>

definition buildDatabase :: "retrieve_database_response \<Rightarrow> Database" where
  "buildDatabase res =
     \<lparr> Title = concat (map plain_text (title res)),
       Description = concat (map plain_text (description res)),
       Icon =
         (case icon res of
            None \<Rightarrow> None
          | Some i \<Rightarrow>
              if type i = ''emoji'' then Some (Emoji (emoji i))
              else Some (File \<lparr> Type = type i,
                                Url = str_or (map_option url (members i (type i))) [],
                                ExpiryTime = None \<rparr>)),
       Cover =
         (case cover res of
            None \<Rightarrow> None
          | Some c \<Rightarrow>
              Some \<lparr> Type = type c,
                     Url = str_or (map_option url (members c (type c))) [],
                     ExpiryTime = None \<rparr>) \<rparr>"

text \<open>A sample response, used in the examples.\<close>

definition sample_db :: retrieve_database_response where
  "sample_db =
     \<lparr> title = [\<lparr> plain_text = ''henka'' \<rparr>, \<lparr> plain_text = ''blog'' \<rparr>],
       description = [], icon = None, cover = None \<rparr>"

subsection \<open>Posts\<close>

record date_value =
  start :: string

record file_element =
  external :: "url_object option"
  file' :: "url_object option"

text \<open>
  A property value of a page. Notion stores the value under the key named by the
  property's type; the code reads the keys below and nothing else.
\<close>

record property_value =
  type :: string
  title :: "rich_text_object list option"
  rich_text :: "rich_text_object list option"
  date :: "date_value option"
  select :: "SelectProperty option"
  multi_select :: "SelectProperty list option"
  files :: "file_element list option"
  number :: "int option"

text \<open>
  \<^verbatim>\<open>properties\<close> is a dictionary from property names to values. It is the one member the
  normaliser reads without a guard.
\<close>

record page_object =
  id' :: string
  properties :: "(string \<rightharpoonup> property_value) option"

text \<open>
  Modelled from the spec: the interface \<^verbatim>\<open>Post\<close> of \<^verbatim>\<open>../interfaces\<close>, whose declaration is
  not among the sources. The fields are those that \<^verbatim>\<open>_buildPost\<close> writes; \<open>Rank\<close> is an
  integer, as the data model of the specification has it.
\<close>

record Post =
  PageId :: string
  Title :: string
  Slug :: string
  Date :: string
  LastUpdatedDate :: string
  Excerpt :: string
  Tags :: "SelectProperty list"
  Status :: "SelectProperty option"
  FeaturedImage :: "FileObject option"
  Rank :: int

text \<open>\<^verbatim>\<open>p?.rich_text ? p.rich_text.map((t) => t.plain_text).join('') : ''\<close>\<close>

definition joined :: "rich_text_object list option \<Rightarrow> string" where
  "joined ts = (case ts of None \<Rightarrow> [] | Some frags \<Rightarrow> concat (map plain_text frags))"

text \<open>
  \<^verbatim>\<open>_buildPost\<close>. Reading \<^verbatim>\<open>prop.FeaturedImage\<close> when \<^verbatim>\<open>pageObject.properties\<close> is missing
  throws; every other read goes through \<^verbatim>\<open>?.\<close> or follows a truthiness test of the
  value read.
\<close>

definition buildPost :: "page_object \<Rightarrow> error + Post" where
  "buildPost pageObject =
     (case properties pageObject of
        None \<Rightarrow> Inl TypeError
      | Some prop \<Rightarrow>
          let featuredImage =
                (case prop ''FeaturedImage'' of
                   None \<Rightarrow> None
                 | Some fi \<Rightarrow>
                     (case files fi of
                        None \<Rightarrow> None
                      | Some [] \<Rightarrow> None
                      | Some (f # rest) \<Rightarrow>
                          Some \<lparr> Type = type fi,
                                 Url = str_or (js_or (map_option url (external f))
                                                     (map_option url (file' f))) [],
                                 ExpiryTime = Option.bind (file' f) expiry_time \<rparr>))
          in Inr
            \<lparr> PageId = id' pageObject,
              Title = joined (Option.bind (prop ''Page'') title),
              Slug = joined (Option.bind (prop ''Slug'') rich_text),
              Date = (case Option.bind (prop ''Date'') date of None \<Rightarrow> [] | Some d \<Rightarrow> start d),
              LastUpdatedDate =
                (case Option.bind (prop ''LastUpdatedDate'') date of None \<Rightarrow> [] | Some d \<Rightarrow> start d),
              Excerpt = joined (Option.bind (prop ''Excerpt'') rich_text),
              Tags =
                (case Option.bind (prop ''Category'') select of
                   Some s \<Rightarrow> [s]
                 | None \<Rightarrow>
                     (case Option.bind (prop ''Category'') multi_select of
                        Some ms \<Rightarrow> ms
                      | None \<Rightarrow> [])),
              Status = Option.bind (prop ''Status'') select,
              FeaturedImage = featuredImage,
              Rank =
                (case Option.bind (prop ''Rank'') number of
                   None \<Rightarrow> 0
                 | Some n \<Rightarrow> if n = 0 then 0 else n) \<rparr>)"

text \<open>
  \<^verbatim>\<open>results.map((pageObject) => _buildPost(pageObject))\<close>: the records are converted from
  left to right, and the first one that throws ends the conversion.
\<close>

fun map_result :: "('a \<Rightarrow> error + 'b) \<Rightarrow> 'a list \<Rightarrow> error + 'b list" where
  "map_result f [] = Inr []"
| "map_result f (x # xs) =
     (case f x of
        Inl e \<Rightarrow> Inl e
      | Inr y \<Rightarrow> (case map_result f xs of Inl e \<Rightarrow> Inl e | Inr ys \<Rightarrow> Inr (y # ys)))"

subsection \<open>The process state and the remote service\<close>

text \<open>
  The Notion SDK client is a parameter. The service behind it has a state of its own
  (\<open>'r\<close>): a call returns a response or an error and the service's next state, so a
  service may answer the same request differently the second time. Of the query
  parameters only \<^verbatim>\<open>start_cursor\<close> varies within and between calls (the database id, the
  \<^verbatim>\<open>Published\<close> filter, the sort and \<^verbatim>\<open>page_size: 100\<close> are constants), so a request is
  identified by its cursor.
\<close>

record ('r, 'p) client =
  databases_retrieve :: "'r \<Rightarrow> (error + retrieve_database_response) \<times> 'r"
  databases_query :: "cursor_param \<Rightarrow> 'r \<Rightarrow> (error + page_object list_response) \<times> 'r"
  blocks_children_list ::
    "string \<Rightarrow> cursor_param \<Rightarrow> 'r \<Rightarrow> (error + 'p block_object list_response) \<times> 'r"

text \<open>
  \<open>postsCache\<close> and \<open>dbCache\<close> are the two module-level variables, both \<^verbatim>\<open>null\<close> when the
  process starts. \<open>fetch_log\<close> is not in the source: it lists the remote calls made so far,
  oldest first.
\<close>

record 'r state =
  postsCache :: "Post list option"
  dbCache :: "Database option"
  remote :: 'r
  fetch_log :: "request list"

definition initial :: "'r \<Rightarrow> 'r state" where
  "initial r = \<lparr> postsCache = None, dbCache = None, remote = r, fetch_log = [] \<rparr>"

text \<open>One remote call: the service moves on and the call is logged.\<close>

definition call :: "request \<Rightarrow> ('r \<Rightarrow> 'x \<times> 'r) \<Rightarrow> 'r state \<Rightarrow> 'x \<times> 'r state" where
  "call rq op s =
     (case op (remote s) of
        (x, r') \<Rightarrow> (x, s\<lparr> remote := r', fetch_log := fetch_log s @ [rq] \<rparr>))"

subsection \<open>The pagination loop\<close>

text \<open>
  The \<^verbatim>\<open>while (true)\<close> loops of \<^verbatim>\<open>getAllPosts\<close> and of \<^verbatim>\<open>getAllBlocksByBlockId\<close> are the same
  text but for the SDK method called, which is the parameter \<open>fetch\<close>:
  \<^verbatim>\<open>
  while (true) {
    const res = await fetch(params)
    results = results.concat(res.results)
    if (!res.has_more) break
    params.start_cursor = res.next_cursor
  }
  \<close>
  Nothing bounds the number of iterations: against a service that always answers
  \<^verbatim>\<open>has_more: true\<close> the loop does not end, which is the value \<open>None\<close>. A rejected fetch
  leaves the loop with the error.
\<close>

partial_function (option) drain_loop ::
  "(cursor_param \<Rightarrow> 'w \<Rightarrow> (error + 'a list_response) \<times> 'w) \<Rightarrow>
   cursor_param \<Rightarrow> 'a list \<Rightarrow> 'w \<Rightarrow> ((error + 'a list) \<times> 'w) option"
where
  "drain_loop fetch start_cursor acc w =
     (case fetch start_cursor w of
        (Inl e, w') \<Rightarrow> Some (Inl e, w')
      | (Inr res, w') \<Rightarrow>
          if \<not> has_more res then Some (Inr (acc @ results res), w')
          else drain_loop fetch (Passed (next_cursor res)) (acc @ results res) w')"

subsection \<open>The exported functions\<close>

definition numberOfRetry :: nat where
  "numberOfRetry = 2"

definition getDatabase :: "('r, 'p) client \<Rightarrow> 'r state \<Rightarrow> (error + Database) \<times> 'r state" where
  "getDatabase cl s =
     (case dbCache s of
        Some db \<Rightarrow> (Inr db, s)
      | None \<Rightarrow>
          (case retry (call RetrieveDatabase (databases_retrieve cl)) numberOfRetry s of
             (Inl e, s') \<Rightarrow> (Inl e, s')
           | (Inr res, s') \<Rightarrow>
               (Inr (buildDatabase res), s'\<lparr> dbCache := Some (buildDatabase res) \<rparr>)))"

definition getAllPosts ::
  "('r, 'p) client \<Rightarrow> 'r state \<Rightarrow> ((error + Post list) \<times> 'r state) option" where
  "getAllPosts cl s =
     (case postsCache s of
        Some posts \<Rightarrow> Some (Inr posts, s)
      | None \<Rightarrow>
          (case drain_loop (\<lambda>c. call (QueryDatabase c) (databases_query cl c)) Absent [] s of
             None \<Rightarrow> None
           | Some (Inl e, s') \<Rightarrow> Some (Inl e, s')
           | Some (Inr rs, s') \<Rightarrow>
               (case map_result buildPost rs of
                  Inl e \<Rightarrow> Some (Inl e, s')
                | Inr posts \<Rightarrow> Some (Inr posts, s'\<lparr> postsCache := Some posts \<rparr>))))"

text \<open>
  \<^verbatim>\<open>const allPosts = await getAllPosts(); return view(allPosts)\<close>, the shape of every query
  function: a failure of \<^verbatim>\<open>getAllPosts\<close> is passed on, and so is its not returning.
\<close>

definition with_allPosts ::
  "('r, 'p) client \<Rightarrow> (Post list \<Rightarrow> 'b) \<Rightarrow> 'r state \<Rightarrow> ((error + 'b) \<times> 'r state) option" where
  "with_allPosts cl view s =
     (case getAllPosts cl s of
        None \<Rightarrow> None
      | Some (Inl e, s') \<Rightarrow> Some (Inl e, s')
      | Some (Inr allPosts, s') \<Rightarrow> Some (Inr (view allPosts), s'))"

text \<open>The default parameter \<^verbatim>\<open>pageSize = 10\<close>: the value used when the caller passes none.\<close>

definition pageSize_or_default :: "int option \<Rightarrow> int" where
  "pageSize_or_default pageSize = (case pageSize of None \<Rightarrow> 10 | Some n \<Rightarrow> n)"

definition getPosts ::
  "('r, 'p) client \<Rightarrow> int option \<Rightarrow> 'r state \<Rightarrow> ((error + Post list) \<times> 'r state) option" where
  "getPosts cl pageSize =
     with_allPosts cl (\<lambda>allPosts. slice allPosts 0 (pageSize_or_default pageSize))"

definition getPostBySlug ::
  "('r, 'p) client \<Rightarrow> string \<Rightarrow> 'r state \<Rightarrow> ((error + Post option) \<times> 'r state) option" where
  "getPostBySlug cl slug =
     with_allPosts cl (\<lambda>allPosts. find (\<lambda>post. Slug post = slug) allPosts)"

definition getPostsByTag ::
  "('r, 'p) client \<Rightarrow> string \<Rightarrow> int option \<Rightarrow> 'r state \<Rightarrow>
   ((error + Post list) \<times> 'r state) option" where
  "getPostsByTag cl tagName pageSize =
     with_allPosts cl (\<lambda>allPosts.
       slice (filter (\<lambda>p. \<exists>t \<in> set (Tags p). name t = tagName) allPosts)
         0 (pageSize_or_default pageSize))"

text \<open>
  \<^verbatim>\<open>!!post.Rank\<close> holds for every number but zero, and \<^verbatim>\<open>(b.Rank || 0) - (a.Rank || 0)\<close>
  is the difference of the two ranks. \<open>Rank\<close> is an integer, as the data model of the
  specification has it.
\<close>

definition getRankedPosts ::
  "('r, 'p) client \<Rightarrow> int option \<Rightarrow> 'r state \<Rightarrow> ((error + Post list) \<times> 'r state) option" where
  "getRankedPosts cl pageSize =
     with_allPosts cl (\<lambda>allPosts.
       slice (js_sort (\<lambda>a b. Rank b - Rank a) (filter (\<lambda>post. Rank post \<noteq> 0) allPosts))
         0 (pageSize_or_default pageSize))"

text \<open>
  The reducer of \<^verbatim>\<open>getAllTags\<close>: \<open>acc\<close> is the accumulator of \<^verbatim>\<open>reduce\<close> and \<open>tagNames\<close> the
  array declared beside it; both grow together.
\<close>

definition tag_step ::
  "SelectProperty list \<times> string list \<Rightarrow> SelectProperty \<Rightarrow> SelectProperty list \<times> string list"
where
  "tag_step st tag =
     (case st of
        (acc, tagNames) \<Rightarrow>
          if name tag \<notin> set tagNames then (acc @ [tag], tagNames @ [name tag])
          else (acc, tagNames))"

text \<open>
  \<^verbatim>\<open>String.prototype.localeCompare\<close> depends on the host's locale data and is a parameter;
  it is negative, zero or positive.
\<close>

definition getAllTags ::
  "('r, 'p) client \<Rightarrow> (string \<Rightarrow> string \<Rightarrow> int) \<Rightarrow> 'r state \<Rightarrow>
   ((error + SelectProperty list) \<times> 'r state) option" where
  "getAllTags cl localeCompare =
     with_allPosts cl (\<lambda>allPosts.
       js_sort (\<lambda>a b. localeCompare (name a) (name b))
         (fst (foldl tag_step ([], []) (concat (map Tags allPosts)))))"

definition getAllBlocksByBlockId ::
  "('r, 'p) client \<Rightarrow> string \<Rightarrow> 'r state \<Rightarrow> ((error + 'p Block list) \<times> 'r state) option" where
  "getAllBlocksByBlockId cl blockId s =
     (case drain_loop (\<lambda>c. call (ListBlockChildren blockId c) (blocks_children_list cl blockId c))
             Absent [] s of
        None \<Rightarrow> None
      | Some (Inl e, s') \<Rightarrow> Some (Inl e, s')
      | Some (Inr rs, s') \<Rightarrow> Some (Inr (map buildBlock rs), s'))"

definition getPostsByFilter ::
  "('r, 'p) client \<Rightarrow> 'f \<Rightarrow> int option \<Rightarrow> 'r state \<Rightarrow>
   ((error + Post list) \<times> 'r state) option" where
  "getPostsByFilter cl filter' pageSize =
     with_allPosts cl (\<lambda>allPosts. slice allPosts 0 (pageSize_or_default pageSize))"

text \<open>
  \<^verbatim>\<open>Math.ceil(allPosts.length / NUMBER_OF_POSTS_PER_PAGE)\<close>. The constant comes from
  \<^verbatim>\<open>../../server-constants\<close> and is a parameter, an integer. The quotient of a length by a
  non-zero integer is a double whose ceiling is the ceiling of the exact quotient (an
  array has fewer than \<open>2^32\<close> elements); a division by zero gives \<^verbatim>\<open>Infinity\<close>, or \<^verbatim>\<open>NaN\<close>
  for an empty collection.
\<close>

datatype js_number = Finite int | Infinity | NaN

definition getNumberOfPages ::
  "('r, 'p) client \<Rightarrow> int \<Rightarrow> 'r state \<Rightarrow> ((error + js_number) \<times> 'r state) option" where
  "getNumberOfPages cl NUMBER_OF_POSTS_PER_PAGE =
     with_allPosts cl (\<lambda>allPosts.
       if NUMBER_OF_POSTS_PER_PAGE = 0
       then (if length allPosts = 0 then NaN else Infinity)
       else Finite (- ((- int (length allPosts)) div NUMBER_OF_POSTS_PER_PAGE)))"

text \<open>
  \<^verbatim>\<open>getBlock\<close> returns an empty object and \<^verbatim>\<open>downloadFile\<close> a resolved promise; neither
  touches the module state or the service.
\<close>

definition getBlock :: "string \<Rightarrow> 'r state \<Rightarrow> (error + unit) \<times> 'r state" where
  "getBlock blockId s = (Inr (), s)"

definition downloadFile :: "string \<Rightarrow> 'r state \<Rightarrow> (error + unit) \<times> 'r state" where
  "downloadFile url' s = (Inr (), s)"

subsection \<open>Callers of the module\<close>

text \<open>
  What the rest of the process can do to the module state: call the exported functions,
  in any order and any number of times. \<open>perform\<close> is the state that one call leaves
  (\<open>None\<close> when the call does not return), whatever it resolves or rejects with, and
  \<open>perform_all\<close> runs a sequence of calls one after the other.
\<close>

datatype 'f api_call =
    GetDatabase
  | GetAllPosts
  | GetPosts "int option"
  | GetPostBySlug string
  | GetPostsByTag string "int option"
  | GetRankedPosts "int option"
  | GetNumberOfPages
  | GetAllTags
  | GetAllBlocksByBlockId string
  | GetBlock string
  | DownloadFile string
  | GetPostsByFilter 'f "int option"

fun perform ::
  "('r, 'p) client \<Rightarrow> (string \<Rightarrow> string \<Rightarrow> int) \<Rightarrow> int \<Rightarrow> 'f api_call \<Rightarrow> 'r state \<Rightarrow>
   'r state option" where
  "perform cl localeCompare n GetDatabase s = Some (snd (getDatabase cl s))"
| "perform cl localeCompare n GetAllPosts s = map_option snd (getAllPosts cl s)"
| "perform cl localeCompare n (GetPosts pageSize) s = map_option snd (getPosts cl pageSize s)"
| "perform cl localeCompare n (GetPostBySlug slug) s = map_option snd (getPostBySlug cl slug s)"
| "perform cl localeCompare n (GetPostsByTag tagName pageSize) s =
     map_option snd (getPostsByTag cl tagName pageSize s)"
| "perform cl localeCompare n (GetRankedPosts pageSize) s =
     map_option snd (getRankedPosts cl pageSize s)"
| "perform cl localeCompare n GetNumberOfPages s = map_option snd (getNumberOfPages cl n s)"
| "perform cl localeCompare n GetAllTags s = map_option snd (getAllTags cl localeCompare s)"
| "perform cl localeCompare n (GetAllBlocksByBlockId blockId) s =
     map_option snd (getAllBlocksByBlockId cl blockId s)"
| "perform cl localeCompare n (GetBlock blockId) s = Some (snd (getBlock blockId s))"
| "perform cl localeCompare n (DownloadFile url') s = Some (snd (downloadFile url' s))"
| "perform cl localeCompare n (GetPostsByFilter f pageSize) s =
     map_option snd (getPostsByFilter cl f pageSize s)"

fun perform_all ::
  "('r, 'p) client \<Rightarrow> (string \<Rightarrow> string \<Rightarrow> int) \<Rightarrow> int \<Rightarrow> 'f api_call list \<Rightarrow> 'r state \<Rightarrow>
   'r state option" where
  "perform_all cl localeCompare n [] s = Some s"
| "perform_all cl localeCompare n (c # cs) s =
     (case perform cl localeCompare n c s of
        None \<Rightarrow> None
      | Some s' \<Rightarrow> perform_all cl localeCompare n cs s')"

text \<open>The page queries and the database retrievals among the logged remote calls.\<close>

fun is_query :: "request \<Rightarrow> bool" where
  "is_query (QueryDatabase c) = True"
| "is_query rq = False"

fun is_retrieve :: "request \<Rightarrow> bool" where
  "is_retrieve RetrieveDatabase = True"
| "is_retrieve rq = False"

subsection \<open>What a remote service does along a drain\<close>

text \<open>
  \<open>serves fetch c w pages w'\<close>: asked with cursor \<open>c\<close> in state \<open>w\<close>, the service answers
  with the first of \<open>pages\<close>; asked next with that page's \<^verbatim>\<open>next_cursor\<close>, with the second;
  and so on. Every page but the last says \<^verbatim>\<open>has_more\<close>, the last one does not, and the
  service is then in state \<open>w'\<close>. This is a source whose records are split across
  \<open>length pages\<close> pages.
\<close>

fun serves ::
  "(cursor_param \<Rightarrow> 'w \<Rightarrow> (error + 'a list_response) \<times> 'w) \<Rightarrow>
   cursor_param \<Rightarrow> 'w \<Rightarrow> 'a list_response list \<Rightarrow> 'w \<Rightarrow> bool" where
  "serves fetch c w [] w_end = False"
| "serves fetch c w (p # ps) w_end =
     (case fetch c w of
        (Inl e, w') \<Rightarrow> False
      | (Inr res, w') \<Rightarrow>
          res = p \<and>
          (if ps = [] then \<not> has_more p \<and> w' = w_end
           else has_more p \<and> serves fetch (Passed (next_cursor p)) w' ps w_end))"

text \<open>
  \<open>fails_after fetch c w pages err w'\<close>: the service answers with \<open>pages\<close>, each of them
  saying \<^verbatim>\<open>has_more\<close>, and the fetch after them is rejected with \<open>err\<close>.
\<close>

fun fails_after ::
  "(cursor_param \<Rightarrow> 'w \<Rightarrow> (error + 'a list_response) \<times> 'w) \<Rightarrow>
   cursor_param \<Rightarrow> 'w \<Rightarrow> 'a list_response list \<Rightarrow> error \<Rightarrow> 'w \<Rightarrow> bool" where
  "fails_after fetch c w [] err w_end = (fetch c w = (Inl err, w_end))"
| "fails_after fetch c w (p # ps) err w_end =
     (case fetch c w of
        (Inl e, w') \<Rightarrow> False
      | (Inr res, w') \<Rightarrow>
          res = p \<and> has_more p \<and> fails_after fetch (Passed (next_cursor p)) w' ps err w_end)"

text \<open>The cursors of the fetches that start at \<open>c\<close> and follow the given pages.\<close>

definition cursor_chain :: "cursor_param \<Rightarrow> 'a list_response list \<Rightarrow> cursor_param list" where
  "cursor_chain c pages = c # map (\<lambda>p. Passed (next_cursor p)) pages"

text \<open>
  A comparator is consistent when it orders any two strings one way or the other and
  does so transitively, which \<^verbatim>\<open>localeCompare\<close> does in every locale.
\<close>

definition consistent :: "(string \<Rightarrow> string \<Rightarrow> int) \<Rightarrow> bool" where
  "consistent cmp \<longleftrightarrow>
     (\<forall>a b. cmp a b \<le> 0 \<or> cmp b a \<le> 0) \<and>
     (\<forall>a b c. cmp a b \<le> 0 \<and> cmp b c \<le> 0 \<longrightarrow> cmp a c \<le> 0)"

subsection \<open>A scripted service and sample records\<close>

text \<open>
  A service for the examples. Its state counts the calls it has received; the calls
  whose number is in \<open>down\<close> are rejected, every other one is answered from a table keyed
  by the cursor.
\<close>

definition answer ::
  "nat list \<Rightarrow> (cursor_param \<times> 'x) list \<Rightarrow> cursor_param \<Rightarrow> nat \<Rightarrow> (error + 'x) \<times> nat" where
  "answer down table c r =
     (if r \<in> set down then Inl (APIError ''timeout'')
      else (case map_of table c of
              None \<Rightarrow> Inl (APIError ''validation_error'')
            | Some res \<Rightarrow> Inr res),
      Suc r)"

definition mock_client ::
  "nat list \<Rightarrow> retrieve_database_response \<Rightarrow>
   (cursor_param \<times> page_object list_response) list \<Rightarrow>
   (cursor_param \<times> unit block_object list_response) list \<Rightarrow> (nat, unit) client" where
  "mock_client down db pages blocks =
     \<lparr> databases_retrieve = answer down [(Absent, db)] Absent,
       databases_query = answer down pages,
       blocks_children_list = (\<lambda>blockId. answer down blocks) \<rparr>"

definition no_value :: property_value where
  "no_value =
     \<lparr> type = [], title = None, rich_text = None, date = None, select = None,
       multi_select = None, files = None, number = None \<rparr>"

definition bare_post :: "string \<Rightarrow> Post" where
  "bare_post i =
     \<lparr> PageId = i, Title = [], Slug = [], Date = [], LastUpdatedDate = [], Excerpt = [],
       Tags = [], Status = None, FeaturedImage = None, Rank = 0 \<rparr>"

definition ranked_page :: "string \<Rightarrow> int \<Rightarrow> page_object" where
  "ranked_page i k =
     \<lparr> id' = i,
       properties = Some [''Rank'' \<mapsto> no_value\<lparr> type := ''number'', number := Some k \<rparr>] \<rparr>"

definition category_page :: "SelectProperty option \<Rightarrow> SelectProperty list option \<Rightarrow> page_object"
where
  "category_page s ms =
     \<lparr> id' = ''p'',
       properties = Some [''Category'' \<mapsto> no_value\<lparr> select := s, multi_select := ms \<rparr>] \<rparr>"

definition image_page :: "file_element list \<Rightarrow> page_object" where
  "image_page fs =
     \<lparr> id' = ''p'',
       properties = Some [''FeaturedImage'' \<mapsto> no_value\<lparr> type := ''files'', files := Some fs \<rparr>] \<rparr>"

definition tag :: "string \<Rightarrow> string \<Rightarrow> SelectProperty" where
  "tag n c = \<lparr> name = n, color = c \<rparr>"

definition three_pages :: "(cursor_param \<times> page_object list_response) list" where
  "three_pages =
     [(Absent,
       \<lparr> results = [ranked_page ''e1'' 0, ranked_page ''e2'' 5], has_more = True,
         next_cursor = Some ''c1'' \<rparr>),
      (Passed (Some ''c1''),
       \<lparr> results = [ranked_page ''e3'' 5], has_more = True, next_cursor = Some ''c2'' \<rparr>),
      (Passed (Some ''c2''),
       \<lparr> results = [ranked_page ''e4'' 3], has_more = False, next_cursor = None \<rparr>)]"

definition four_posts :: "Post list" where
  "four_posts =
     [bare_post ''e1'', (bare_post ''e2'')\<lparr> Rank := 5 \<rparr>, (bare_post ''e3'')\<lparr> Rank := 5 \<rparr>,
      (bare_post ''e4'')\<lparr> Rank := 3 \<rparr>]"

definition two_block_pages :: "(cursor_param \<times> unit block_object list_response) list" where
  "two_block_pages =
     [(Absent, \<lparr> results = [block ''b1''], has_more = True, next_cursor = Some ''n1'' \<rparr>),
      (Passed (Some ''n1''),
       \<lparr> results = [block ''b2'', block ''b3''], has_more = False, next_cursor = None \<rparr>)]"

text \<open>Comparison of strings by their character codes, a consistent comparator.\<close>

definition code_compare :: "string \<Rightarrow> string \<Rightarrow> int" where
  "code_compare a b = (if a < b then - 1 else if a = b then 0 else 1)"

definition tagged_posts :: "Post list" where
  "tagged_posts =
     [(bare_post ''x'')\<lparr> Tags := [tag ''B'' ''red'', tag ''C'' ''red''] \<rparr>,
      (bare_post ''y'')\<lparr> Tags := [tag ''A'' ''green'', tag ''B'' ''green''] \<rparr>]"

section \<open>Properties\<close>

subsection \<open>Slicing and sorting\<close>

lemma slice_0_nonneg: "0 \<le> n \<Longrightarrow> slice xs 0 n = take (nat n) xs"
  by (auto simp: slice_def Let_def min_def)

lemma mset_insert_by: "mset (insert_by cmp x ys) = add_mset x (mset ys)"
  by (induction ys) auto

lemma mset_js_sort: "mset (js_sort cmp xs) = mset xs"
  by (induction xs) (auto simp: js_sort_def mset_insert_by)

lemma set_insert_by: "set (insert_by cmp x ys) = insert x (set ys)"
  by (induction ys) auto

lemma sorted_insert_by:
  assumes tot: "\<And>a b. cmp a b \<le> 0 \<or> cmp b a \<le> 0"
    and trans: "\<And>a b c. cmp a b \<le> 0 \<Longrightarrow> cmp b c \<le> 0 \<Longrightarrow> cmp a c \<le> 0"
  shows "sorted_wrt (\<lambda>a b. cmp a b \<le> 0) ys \<Longrightarrow> sorted_wrt (\<lambda>a b. cmp a b \<le> 0) (insert_by cmp x ys)"
proof (induction ys)
  case Nil
  show ?case by simp
next
  case (Cons y ys)
  show ?case
  proof (cases "cmp x y \<le> 0")
    case True
    with Cons.prems trans show ?thesis by auto
  next
    case False
    with tot have "cmp y x \<le> 0" by blast
    with False Cons show ?thesis by (auto simp: set_insert_by)
  qed
qed

lemma sorted_js_sort:
  assumes tot: "\<And>a b. cmp a b \<le> 0 \<or> cmp b a \<le> 0"
    and trans: "\<And>a b c. cmp a b \<le> 0 \<Longrightarrow> cmp b c \<le> 0 \<Longrightarrow> cmp a c \<le> 0"
  shows "sorted_wrt (\<lambda>a b. cmp a b \<le> 0) (js_sort cmp xs)"
proof (induction xs)
  case Nil
  show ?case by (simp add: js_sort_def)
next
  case (Cons x xs)
  have "js_sort cmp (x # xs) = insert_by cmp x (js_sort cmp xs)" by (simp add: js_sort_def)
  with Cons sorted_insert_by[of cmp, OF tot trans] show ?case by simp
qed

lemma filter_insert_by:
  assumes "\<And>y. y \<in> set ys \<Longrightarrow> P x \<Longrightarrow> P y \<Longrightarrow> cmp x y \<le> 0"
  shows "filter P (insert_by cmp x ys) = (if P x then x # filter P ys else filter P ys)"
  using assms by (induction ys) auto

lemma stable_js_sort:
  assumes "\<And>a b. a \<in> set xs \<Longrightarrow> b \<in> set xs \<Longrightarrow> P a \<Longrightarrow> P b \<Longrightarrow> cmp a b \<le> 0"
  shows "filter P (js_sort cmp xs) = filter P xs"
  using assms
proof (induction xs)
  case Nil
  show ?case by (simp add: js_sort_def)
next
  case (Cons x xs)
  have step: "js_sort cmp (x # xs) = insert_by cmp x (js_sort cmp xs)" by (simp add: js_sort_def)
  have sets: "set (js_sort cmp xs) = set xs" using mset_js_sort[of cmp xs] by (metis set_mset_mset)
  have "filter P (insert_by cmp x (js_sort cmp xs)) = (if P x then x # filter P (js_sort cmp xs) else filter P (js_sort cmp xs))"
    by (rule filter_insert_by) (simp add: sets Cons.prems)
  moreover have "filter P (js_sort cmp xs) = filter P xs"
    by (rule Cons.IH) (simp add: Cons.prems)
  ultimately show ?case by (simp add: step)
qed



text \<open>
  For a comparator that is the difference of an integer key, \<open>js_sort\<close> is the library's
  stable sort, and any arrangement that is a permutation of the input, descending in the
  key and stable is the one it returns: which stable algorithm the engine runs makes no
  difference.
\<close>

lemma insert_by_key:
  "insert_by (\<lambda>a b. key b - key a) x ys = insort_key (\<lambda>p. - key p :: int) x ys"
  by (induction ys) auto

lemma js_sort_by_key:
  "js_sort (\<lambda>a b. key b - key a) xs = sort_key (\<lambda>p. - key p :: int) xs"
  by (induction xs) (simp_all add: js_sort_def insert_by_key)

lemma js_sort_by_key_unique:
  assumes "mset ys = mset xs"
    and "sorted_wrt (\<lambda>a b. key a \<ge> (key b :: int)) ys"
    and "\<And>k. filter (\<lambda>p. key p = k) ys = filter (\<lambda>p. key p = k) xs"
  shows "ys = js_sort (\<lambda>a b. key b - key a) xs"
proof -
  have "sorted (map (\<lambda>p. - key p) ys)"
    using assms(2) by (simp add: sorted_map) 
  moreover have "filter (\<lambda>x. - key k = - key x) ys = filter (\<lambda>x. - key k = - key x) xs" for k
    using assms(3)[of "key k"] by (simp add: eq_commute)
  ultimately have "sort_key (\<lambda>p. - key p) xs = ys"
    using assms(1) by (intro properties_for_sort_key) auto
  then show ?thesis by (simp add: js_sort_by_key)
qed

subsection \<open>The reducer of the distinct tags\<close>

lemma find_first_by_name:
  "distinct (map name acc) \<Longrightarrow> t \<in> set acc \<Longrightarrow> find (\<lambda>u. name u = name t) acc = Some t"
  by (induction acc) (auto simp: rev_image_eqI)

lemma find_skip:
  "\<not> P x \<or> (\<exists>a \<in> set as. P a) \<Longrightarrow> find P (as @ x # xs) = find P (as @ xs)"
  by (induction as) auto

lemma tag_fold:
  "distinct (map name acc) \<Longrightarrow>
   \<exists>acc'. foldl tag_step (acc, map name acc) xs = (acc', map name acc') \<and>
     distinct (map name acc') \<and>
     set (map name acc') = set (map name acc) \<union> set (map name xs) \<and>
     (\<forall>t \<in> set acc'. find (\<lambda>u. name u = name t) (acc @ xs) = Some t)"
proof (induction xs arbitrary: acc)
  case Nil
  then show ?case by (simp add: find_first_by_name)
next
  case (Cons x xs)
  show ?case
  proof (cases "name x \<in> set (map name acc)")
    case True
    then have step: "tag_step (acc, map name acc) x = (acc, map name acc)"
      by (simp add: tag_step_def)
    from Cons.IH[OF Cons.prems] obtain acc' where
      a: "foldl tag_step (acc, map name acc) xs = (acc', map name acc')"
      and b: "distinct (map name acc')"
      and c: "set (map name acc') = set (map name acc) \<union> set (map name xs)"
      and d: "\<forall>t \<in> set acc'. find (\<lambda>u. name u = name t) (acc @ xs) = Some t"
      by blast
    have "find (\<lambda>u. name u = name t) (acc @ x # xs) = Some t" if "t \<in> set acc'" for t
    proof -
      have "name x \<noteq> name t \<or> (\<exists>a \<in> set acc. name a = name t)" using True by auto
      then have "find (\<lambda>u. name u = name t) (acc @ x # xs) = find (\<lambda>u. name u = name t) (acc @ xs)"
        by (intro find_skip) auto
      with d that show ?thesis by simp
    qed
    with a b c True show ?thesis by (auto simp: step)
  next
    case False
    then have step: "tag_step (acc, map name acc) x = (acc @ [x], map name (acc @ [x]))"
      by (simp add: tag_step_def)
    have "distinct (map name (acc @ [x]))" using Cons.prems False by simp
    from Cons.IH[OF this] obtain acc' where
      a: "foldl tag_step (acc @ [x], map name (acc @ [x])) xs = (acc', map name acc')"
      and b: "distinct (map name acc')"
      and c: "set (map name acc') = set (map name (acc @ [x])) \<union> set (map name xs)"
      and d: "\<forall>t \<in> set acc'. find (\<lambda>u. name u = name t) ((acc @ [x]) @ xs) = Some t"
      by blast
    from a b c d show ?thesis by (auto simp: step)
  qed
qed

subsection \<open>The pagination loop\<close>

lemma drain_loop_serves:
  "serves fetch c w pages w' \<Longrightarrow>
   drain_loop fetch c acc w = Some (Inr (acc @ concat (map results pages)), w')"
proof (induction pages arbitrary: c w acc)
  case Nil
  then show ?case by simp
next
  case (Cons p ps)
  from Cons.prems obtain w1 where f: "fetch c w = (Inr p, w1)"
    by (auto split: prod.splits sum.splits)
  show ?case
  proof (cases "ps = []")
    case True
    with Cons.prems f show ?thesis by (subst drain_loop.simps) simp
  next
    case False
    with Cons.prems f have more: "has_more p"
      and rest: "serves fetch (Passed (next_cursor p)) w1 ps w'" by auto
    from Cons.IH[OF rest, of "acc @ results p"] f more
    show ?thesis by (subst drain_loop.simps) simp
  qed
qed

lemma drain_loop_fails:
  "fails_after fetch c w pages err w' \<Longrightarrow> drain_loop fetch c acc w = Some (Inl err, w')"
proof (induction pages arbitrary: c w acc)
  case Nil
  then show ?case by (subst drain_loop.simps) simp
next
  case (Cons p ps)
  from Cons.prems obtain w1 where f: "fetch c w = (Inr p, w1)"
    by (auto split: prod.splits sum.splits)
  with Cons.prems have more: "has_more p"
    and rest: "fails_after fetch (Passed (next_cursor p)) w1 ps err w'" by auto
  from Cons.IH[OF rest, of "acc @ results p"] f more
  show ?case by (subst drain_loop.simps) simp
qed

lemma drain_loop_sound:
  assumes "drain_loop fetch c acc w = Some y"
  shows "case fst y of
      Inr rs \<Rightarrow> \<exists>pages. serves fetch c w pages (snd y) \<and> rs = acc @ concat (map results pages)
    | Inl err \<Rightarrow> \<exists>pages. fails_after fetch c w pages err (snd y)"
proof (rule drain_loop.raw_induct[rotated 1, OF assms, where P = "\<lambda>fetch c acc w y. case fst y of
      Inr rs \<Rightarrow> \<exists>pages. serves fetch c w pages (snd y) \<and> rs = acc @ concat (map results pages)
    | Inl err \<Rightarrow> \<exists>pages. fails_after fetch c w pages err (snd y)"], goal_cases)
  case (1 loop fetch c acc w y)
  show ?case
  proof (cases "fetch c w")
    case (Pair r w1)
    show ?thesis
    proof (cases r)
      case (Inl e)
      with 1(2) Pair have y: "y = (Inl e, w1)" by simp
      have "fails_after fetch c w [] e w1" using Pair Inl by simp
      then have "\<exists>pages. fails_after fetch c w pages e w1" by (rule exI)
      then show ?thesis by (simp add: y)
    next
      case (Inr res)
      show ?thesis
      proof (cases "has_more res")
        case False
        with 1(2) Pair Inr have y: "y = (Inr (acc @ results res), w1)" by simp
        have "serves fetch c w [res] w1 \<and> acc @ results res = acc @ concat (map results [res])"
          using Pair Inr False by simp
        then have "\<exists>pages. serves fetch c w pages w1 \<and>
              acc @ results res = acc @ concat (map results pages)" by (rule exI)
        then show ?thesis by (simp add: y)
      next
        case True
        with 1(2) Pair Inr
        have rec: "loop fetch (Passed (next_cursor res)) (acc @ results res) w1 = Some y" by simp
        note ih = 1(1)[OF rec]
        show ?thesis
        proof (cases "fst y")
          case (Inl err)
          with ih obtain pages where
            "fails_after fetch (Passed (next_cursor res)) w1 pages err (snd y)" by auto
          then have "fails_after fetch c w (res # pages) err (snd y)"
            using Pair Inr True by simp
          then have "\<exists>pages. fails_after fetch c w pages err (snd y)" by (rule exI)
          then show ?thesis by (simp add: Inl)
        next
          case rs: (Inr rs)
          with ih obtain pages where
            p: "serves fetch (Passed (next_cursor res)) w1 pages (snd y)"
            and q: "rs = (acc @ results res) @ concat (map results pages)" by auto
          from p have "pages \<noteq> []" by (cases pages) auto
          with p q have "serves fetch c w (res # pages) (snd y) \<and>
              rs = acc @ concat (map results (res # pages))"
            using Pair Inr True by simp
          then have "\<exists>pages. serves fetch c w pages (snd y) \<and>
              rs = acc @ concat (map results pages)" by (rule exI)
          then show ?thesis by (simp add: rs)
        qed
      qed
    qed
  qed
qed

lemma serves_call:
  "serves op c (remote s) pages r' \<Longrightarrow>
   serves (\<lambda>c. call (mk c) (op c)) c s pages
     (s\<lparr> remote := r', fetch_log := fetch_log s @ map mk (cursor_chain c (butlast pages)) \<rparr>)"
proof (induction pages arbitrary: c s)
  case Nil
  then show ?case by simp
next
  case (Cons p ps)
  from Cons.prems obtain r1 where f: "op c (remote s) = (Inr p, r1)"
    by (auto split: prod.splits sum.splits)
  let ?s1 = "s\<lparr> remote := r1, fetch_log := fetch_log s @ [mk c] \<rparr>"
  have c1: "call (mk c) (op c) s = (Inr p, ?s1)" by (simp add: call_def f)
  show ?case
  proof (cases "ps = []")
    case True
    with Cons.prems f c1 show ?thesis by (simp add: cursor_chain_def)
  next
    case False
    with Cons.prems f have more: "has_more p"
      and rest: "serves op (Passed (next_cursor p)) (remote ?s1) ps r'" by auto
    from Cons.IH[OF rest] False more c1 show ?thesis
      by (simp add: cursor_chain_def)
  qed
qed

lemma fails_after_call:
  "fails_after op c (remote s) pages err r' \<Longrightarrow>
   fails_after (\<lambda>c. call (mk c) (op c)) c s pages err
     (s\<lparr> remote := r', fetch_log := fetch_log s @ map mk (cursor_chain c pages) \<rparr>)"
proof (induction pages arbitrary: c s)
  case Nil
  then show ?case by (simp add: call_def cursor_chain_def)
next
  case (Cons p ps)
  from Cons.prems obtain r1 where f: "op c (remote s) = (Inr p, r1)"
    by (auto split: prod.splits sum.splits)
  let ?s1 = "s\<lparr> remote := r1, fetch_log := fetch_log s @ [mk c] \<rparr>"
  have c1: "call (mk c) (op c) s = (Inr p, ?s1)" by (simp add: call_def f)
  from Cons.prems f have more: "has_more p"
    and rest: "fails_after op (Passed (next_cursor p)) (remote ?s1) ps err r'" by auto
  from Cons.IH[OF rest] more c1 show ?case
    by (simp add: cursor_chain_def)
qed

lemma distinct_names_js_sort:
  "distinct (map name (js_sort cmp xs)) = distinct (map name xs)"
proof -
  have "mset (map name (js_sort cmp xs)) = mset (map name xs)"
    by (simp add: mset_js_sort)
  then show ?thesis by (rule mset_eq_imp_distinct_iff)
qed

lemma set_js_sort: "set (js_sort cmp xs) = set xs"
  using mset_js_sort[of cmp xs] by (metis set_mset_mset)

subsection \<open>Serving from the cache\<close>

lemma getAllPosts_cached: "postsCache s = Some posts \<Longrightarrow> getAllPosts cl s = Some (Inr posts, s)"
  by (simp add: getAllPosts_def)

lemma with_allPosts_cached:
  "postsCache s = Some posts \<Longrightarrow> with_allPosts cl view s = Some (Inr (view posts), s)"
  by (simp add: with_allPosts_def getAllPosts_cached)

subsection \<open>What the remote calls leave behind\<close>

lemma length_map_result: "map_result f xs = Inr ys \<Longrightarrow> length ys = length xs"
  by (induction xs arbitrary: ys) (auto split: sum.splits)

lemma serves_call_state:
  "serves (\<lambda>c. call (mk c) (op c)) c s pages s' \<Longrightarrow>
   postsCache s' = postsCache s \<and> dbCache s' = dbCache s \<and>
   fetch_log s' = fetch_log s @ map mk (cursor_chain c (butlast pages))"
proof (induction pages arbitrary: c s)
  case Nil
  then show ?case by simp
next
  case (Cons p ps)
  obtain x r1 where o: "op c (remote s) = (x, r1)" by (cases "op c (remote s)")
  let ?s1 = "s\<lparr> remote := r1, fetch_log := fetch_log s @ [mk c] \<rparr>"
  have c1: "call (mk c) (op c) s = (x, ?s1)" by (simp add: call_def o)
  from Cons.prems c1 have x: "x = Inr p" by (auto split: sum.splits)
  show ?case
  proof (cases "ps = []")
    case True
    with Cons.prems c1 x show ?thesis by (auto simp: cursor_chain_def)
  next
    case False
    with Cons.prems c1 x have rest: "serves (\<lambda>c. call (mk c) (op c)) (Passed (next_cursor p)) ?s1 ps s'"
      by auto
    from Cons.IH[OF rest] False show ?thesis by (simp add: cursor_chain_def)
  qed
qed

lemma fails_after_call_state:
  "fails_after (\<lambda>c. call (mk c) (op c)) c s pages err s' \<Longrightarrow>
   postsCache s' = postsCache s \<and> dbCache s' = dbCache s \<and>
   fetch_log s' = fetch_log s @ map mk (cursor_chain c pages)"
proof (induction pages arbitrary: c s)
  case Nil
  then show ?case by (auto simp: call_def cursor_chain_def split: prod.splits)
next
  case (Cons p ps)
  obtain x r1 where o: "op c (remote s) = (x, r1)" by (cases "op c (remote s)")
  let ?s1 = "s\<lparr> remote := r1, fetch_log := fetch_log s @ [mk c] \<rparr>"
  have c1: "call (mk c) (op c) s = (x, ?s1)" by (simp add: call_def o)
  from Cons.prems c1 have x: "x = Inr p" by (auto split: sum.splits)
  with Cons.prems c1 have rest:
    "fails_after (\<lambda>c. call (mk c) (op c)) (Passed (next_cursor p)) ?s1 ps err s'" by auto
  from Cons.IH[OF rest] show ?case by (simp add: cursor_chain_def)
qed

lemma drain_loop_call_state:
  assumes "drain_loop (\<lambda>c. call (mk c) (op c)) c acc s = Some (out, s')"
  shows "postsCache s' = postsCache s \<and> dbCache s' = dbCache s \<and>
    (\<exists>rest. fetch_log s' = fetch_log s @ mk c # rest)"
proof (cases out)
  case (Inl err)
  with drain_loop_sound[OF assms] obtain pages where
    "fails_after (\<lambda>c. call (mk c) (op c)) c s pages err s'" by auto
  from fails_after_call_state[OF this] show ?thesis by (simp add: cursor_chain_def)
next
  case (Inr rs)
  with drain_loop_sound[OF assms] obtain pages where
    "serves (\<lambda>c. call (mk c) (op c)) c s pages s'" by auto
  from serves_call_state[OF this] show ?thesis by (simp add: cursor_chain_def)
qed

lemma drain_loop_call_serves:
  assumes "serves op c (remote s) pages r'"
  shows "drain_loop (\<lambda>c. call (mk c) (op c)) c acc s =
    Some (Inr (acc @ concat (map results pages)),
          s\<lparr> remote := r', fetch_log := fetch_log s @ map mk (cursor_chain c (butlast pages)) \<rparr>)"
  by (rule drain_loop_serves) (rule serves_call[OF assms])

lemma drain_loop_call_fails:
  assumes "fails_after op c (remote s) pages err r'"
  shows "drain_loop (\<lambda>c. call (mk c) (op c)) c acc s =
    Some (Inl err, s\<lparr> remote := r', fetch_log := fetch_log s @ map mk (cursor_chain c pages) \<rparr>)"
  by (rule drain_loop_fails) (rule fails_after_call[OF assms])

lemma getAllPosts_serves:
  assumes "postsCache s = None" and "serves (databases_query cl) Absent (remote s) pages r'"
    and "map_result buildPost (concat (map results pages)) = Inr posts"
  shows "getAllPosts cl s =
    Some (Inr posts,
          s\<lparr> remote := r',
             fetch_log := fetch_log s @ map QueryDatabase (cursor_chain Absent (butlast pages)),
             postsCache := Some posts \<rparr>)"
  using assms(1,3) by (simp add: getAllPosts_def drain_loop_call_serves[OF assms(2)])

lemma getAllPosts_fails:
  assumes "postsCache s = None"
    and "fails_after (databases_query cl) Absent (remote s) pages err r'"
  shows "getAllPosts cl s =
    Some (Inl err,
          s\<lparr> remote := r',
             fetch_log := fetch_log s @ map QueryDatabase (cursor_chain Absent pages) \<rparr>)"
  using assms(1) by (simp add: getAllPosts_def drain_loop_call_fails[OF assms(2)])

lemma getAllPosts_fills:
  "getAllPosts cl s = Some (Inr posts, s') \<Longrightarrow> postsCache s' = Some posts"
  by (auto simp: getAllPosts_def split: option.splits sum.splits prod.splits)

lemma getAllPosts_error_state:
  assumes "getAllPosts cl s = Some (Inl err, s')"
  shows "postsCache s = None \<and> postsCache s' = None \<and> dbCache s' = dbCache s"
proof -
  from assms have none: "postsCache s = None"
    by (auto simp: getAllPosts_def split: option.splits)
  with assms obtain out where
    d: "drain_loop (\<lambda>c. call (QueryDatabase c) (databases_query cl c)) Absent [] s = Some (out, s')"
    by (auto simp: getAllPosts_def split: option.splits sum.splits prod.splits)
  from drain_loop_call_state[OF d] none show ?thesis by simp
qed

lemma getAllPosts_restarts:
  assumes "postsCache s = None" and "getAllPosts cl s = Some (out, s')"
  shows "\<exists>rest. fetch_log s' = fetch_log s @ QueryDatabase Absent # rest"
proof -
  from assms obtain out2 s2 where
    d: "drain_loop (\<lambda>c. call (QueryDatabase c) (databases_query cl c)) Absent [] s = Some (out2, s2)"
    and l: "fetch_log s' = fetch_log s2"
    by (auto simp: getAllPosts_def split: option.splits sum.splits prod.splits)
  from drain_loop_call_state[OF d] l show ?thesis by simp
qed

lemma retry_call_state:
  "retry (call rq op) n s = (out, s') \<Longrightarrow>
   postsCache s' = postsCache s \<and> dbCache s' = dbCache s \<and>
   (\<exists>k. 1 \<le> k \<and> k \<le> Suc n \<and> fetch_log s' = fetch_log s @ replicate k rq \<and>
        ((\<exists>err. out = Inl err) \<longrightarrow> k = Suc n))"
proof (induction n arbitrary: s)
  case 0
  then have "fetch_log s' = fetch_log s @ replicate 1 rq \<and>
      postsCache s' = postsCache s \<and> dbCache s' = dbCache s"
    by (auto simp: call_def split: prod.splits)
  then show ?case by (intro conjI exI[of _ 1]) auto
next
  case (Suc n)
  obtain x r1 where o: "op (remote s) = (x, r1)" by (cases "op (remote s)")
  let ?s1 = "s\<lparr> remote := r1, fetch_log := fetch_log s @ [rq] \<rparr>"
  have c1: "call rq op s = (x, ?s1)" by (simp add: call_def o)
  show ?case
  proof (cases x)
    case (Inr a)
    with Suc.prems c1 have "out = Inr a" and "s' = ?s1" by auto
    then have "fetch_log s' = fetch_log s @ replicate 1 rq \<and>
      postsCache s' = postsCache s \<and> dbCache s' = dbCache s" by simp
    with \<open>out = Inr a\<close> show ?thesis by (intro conjI exI[of _ 1]) auto
  next
    case (Inl e)
    with Suc.prems c1 have "retry (call rq op) n ?s1 = (out, s')" by simp
    from Suc.IH[OF this] obtain k where
      k: "1 \<le> k" "k \<le> Suc n" "fetch_log s' = fetch_log ?s1 @ replicate k rq"
        "(\<exists>err. out = Inl err) \<longrightarrow> k = Suc n"
      and c: "postsCache s' = postsCache s" "dbCache s' = dbCache s"
      by auto
    from k have "fetch_log s' = fetch_log s @ replicate (Suc k) rq"
      by (simp add: replicate_app_Cons_same)
    with k c show ?thesis by (intro conjI exI[of _ "Suc k"]) auto
  qed
qed

lemma getDatabase_fills: "getDatabase cl s = (Inr db, s') \<Longrightarrow> dbCache s' = Some db"
  by (auto simp: getDatabase_def split: option.splits sum.splits prod.splits)

lemma getDatabase_cached: "dbCache s = Some db \<Longrightarrow> getDatabase cl s = (Inr db, s)"
  by (simp add: getDatabase_def)

lemma getDatabase_error_state:
  assumes "getDatabase cl s = (Inl err, s')"
  shows "dbCache s' = None \<and> postsCache s' = postsCache s \<and>
    fetch_log s' = fetch_log s @ replicate (Suc numberOfRetry) RetrieveDatabase"
proof -
  from assms have none: "dbCache s = None"
    by (auto simp: getDatabase_def split: option.splits)
  with assms have "retry (call RetrieveDatabase (databases_retrieve cl)) numberOfRetry s = (Inl err, s')"
    by (auto simp: getDatabase_def split: option.splits sum.splits prod.splits)
  from retry_call_state[OF this] none show ?thesis by auto
qed

lemma consistent_code_compare: "consistent code_compare"
  by (auto simp: consistent_def code_compare_def split: if_splits)

lemma with_allPosts_after:
  "getAllPosts cl s = Some (Inr posts, s') \<Longrightarrow>
   with_allPosts cl view s' = Some (Inr (view posts), s')"
  by (rule with_allPosts_cached) (rule getAllPosts_fills)

lemma getDatabase_restarts:
  assumes "dbCache s = None"
  shows "\<exists>rest. fetch_log (snd (getDatabase cl s)) = fetch_log s @ RetrieveDatabase # rest"
proof -
  obtain out s1 where
    r: "retry (call RetrieveDatabase (databases_retrieve cl)) numberOfRetry s = (out, s1)"
    by (cases "retry (call RetrieveDatabase (databases_retrieve cl)) numberOfRetry s")
  from retry_call_state[OF r] obtain k where
    "1 \<le> k" and "fetch_log s1 = fetch_log s @ replicate k RetrieveDatabase" by auto
  then have "\<exists>rest. fetch_log s1 = fetch_log s @ RetrieveDatabase # rest"
    by (cases k) auto
  moreover have "fetch_log (snd (getDatabase cl s)) = fetch_log s1"
    using assms r by (cases out) (simp_all add: getDatabase_def)
  ultimately show ?thesis by simp
qed

lemma getDatabase_attempts:
  assumes "dbCache s = None"
  shows "\<exists>k. 1 \<le> k \<and> k \<le> Suc numberOfRetry \<and>
    fetch_log (snd (getDatabase cl s)) = fetch_log s @ replicate k RetrieveDatabase"
proof -
  obtain out s1 where
    r: "retry (call RetrieveDatabase (databases_retrieve cl)) numberOfRetry s = (out, s1)"
    by (cases "retry (call RetrieveDatabase (databases_retrieve cl)) numberOfRetry s")
  have "fetch_log (snd (getDatabase cl s)) = fetch_log s1"
    using assms r by (cases out) (simp_all add: getDatabase_def)
  with retry_call_state[OF r] show ?thesis by auto
qed

subsection \<open>No call evicts a cache\<close>

lemma getAllBlocksByBlockId_serves:
  assumes "serves (blocks_children_list cl blockId) Absent (remote s) pages r'"
  shows "getAllBlocksByBlockId cl blockId s =
    Some (Inr (map buildBlock (concat (map results pages))),
          s\<lparr> remote := r',
             fetch_log := fetch_log s
               @ map (ListBlockChildren blockId) (cursor_chain Absent (butlast pages)) \<rparr>)"
  using drain_loop_call_serves[OF assms, of "ListBlockChildren blockId" "[]"]
  by (simp add: getAllBlocksByBlockId_def)

lemma drain_loop_call_log:
  assumes "drain_loop (\<lambda>c. call (mk c) (op c)) c acc s = Some (out, s')"
  shows "\<exists>cs. fetch_log s' = fetch_log s @ map mk cs"
proof (cases out)
  case (Inl err)
  with drain_loop_sound[OF assms] obtain pages where
    "fails_after (\<lambda>c. call (mk c) (op c)) c s pages err s'" by auto
  from fails_after_call_state[OF this] show ?thesis by blast
next
  case (Inr rs)
  with drain_loop_sound[OF assms] obtain pages where
    "serves (\<lambda>c. call (mk c) (op c)) c s pages s'" by auto
  from serves_call_state[OF this] show ?thesis by blast
qed

lemma getAllPosts_frame:
  assumes "getAllPosts cl s = Some (out, s')"
  shows "dbCache s' = dbCache s \<and> (\<exists>cs. fetch_log s' = fetch_log s @ map QueryDatabase cs)"
proof (cases "postsCache s")
  case (Some posts)
  with assms have "s' = s" by (simp add: getAllPosts_def)
  then have "fetch_log s' = fetch_log s @ map QueryDatabase []" by simp
  with \<open>s' = s\<close> show ?thesis by blast
next
  case None
  with assms obtain out2 s2 where
    d: "drain_loop (\<lambda>c. call (QueryDatabase c) (databases_query cl c)) Absent [] s = Some (out2, s2)"
    and l: "fetch_log s' = fetch_log s2" and c: "dbCache s' = dbCache s2"
    by (auto simp: getAllPosts_def split: option.splits sum.splits prod.splits)
  from drain_loop_call_state[OF d] drain_loop_call_log[OF d] l c show ?thesis by simp
qed

lemma getAllBlocksByBlockId_frame:
  assumes "getAllBlocksByBlockId cl blockId s = Some (out, s')"
  shows "postsCache s' = postsCache s \<and> dbCache s' = dbCache s \<and>
    (\<exists>cs. fetch_log s' = fetch_log s @ map (ListBlockChildren blockId) cs)"
proof -
  from assms obtain out2 where
    d: "drain_loop (\<lambda>c. call (ListBlockChildren blockId c) (blocks_children_list cl blockId c))
          Absent [] s = Some (out2, s')"
    by (auto simp: getAllBlocksByBlockId_def split: option.splits sum.splits prod.splits)
  from drain_loop_call_state[OF d] drain_loop_call_log[OF d] show ?thesis by simp
qed

lemma getDatabase_frame:
  "postsCache (snd (getDatabase cl s)) = postsCache s \<and>
   (\<exists>k. fetch_log (snd (getDatabase cl s)) = fetch_log s @ replicate k RetrieveDatabase)"
proof (cases "dbCache s")
  case (Some db)
  then have "getDatabase cl s = (Inr db, s)" by (rule getDatabase_cached)
  then have "postsCache (snd (getDatabase cl s)) = postsCache s \<and>
      fetch_log (snd (getDatabase cl s)) = fetch_log s @ replicate 0 RetrieveDatabase" by simp
  then show ?thesis by blast
next
  case None
  obtain out s1 where
    r: "retry (call RetrieveDatabase (databases_retrieve cl)) numberOfRetry s = (out, s1)"
    by (cases "retry (call RetrieveDatabase (databases_retrieve cl)) numberOfRetry s")
  have "fetch_log (snd (getDatabase cl s)) = fetch_log s1 \<and>
      postsCache (snd (getDatabase cl s)) = postsCache s1"
    using None r by (cases out) (simp_all add: getDatabase_def)
  with retry_call_state[OF r] show ?thesis by auto
qed

lemma with_allPosts_first:
  assumes "with_allPosts cl view s = Some (Inr r, s')"
  shows "\<exists>posts. getAllPosts cl s = Some (Inr posts, s') \<and> r = view posts"
  using assms by (auto simp: with_allPosts_def split: option.splits sum.splits prod.splits)

lemma with_allPosts_again:
  assumes "with_allPosts cl view s = Some (Inr r, s')"
  shows "(\<exists>posts. getAllPosts cl s = Some (Inr posts, s')) \<and>
    with_allPosts cl view s' = Some (Inr r, s')"
proof -
  from with_allPosts_first[OF assms] obtain posts where
    g: "getAllPosts cl s = Some (Inr posts, s')" and r: "r = view posts" by blast
  from with_allPosts_after[OF g, of view] r g show ?thesis by blast
qed

lemma with_allPosts_frame:
  assumes "with_allPosts cl view s = Some (out, s')"
  shows "\<exists>out2. getAllPosts cl s = Some (out2, s')"
  using assms by (auto simp: with_allPosts_def split: option.splits sum.splits prod.splits)

lemma filter_other_requests:
  "\<forall>x. \<not> P (mk x) \<Longrightarrow> filter P (xs @ map mk cs) = filter P xs"
  by (induction cs) auto

lemma perform_keeps_posts:
  assumes "postsCache s = Some posts" and "perform cl lc n c s = Some s'"
  shows "postsCache s' = Some posts \<and>
    filter is_query (fetch_log s') = filter is_query (fetch_log s)"
proof (cases c)
  case GetDatabase
  from getDatabase_frame[of cl s] obtain k where
    "postsCache (snd (getDatabase cl s)) = postsCache s"
    "fetch_log (snd (getDatabase cl s)) = fetch_log s @ replicate k RetrieveDatabase" by blast
  with assms GetDatabase show ?thesis by (auto simp: filter_replicate)
next
  case (GetAllBlocksByBlockId blockId)
  with assms obtain out where g: "getAllBlocksByBlockId cl blockId s = Some (out, s')"
    by auto
  from getAllBlocksByBlockId_frame[OF g] obtain cs where
    "postsCache s' = postsCache s"
    "fetch_log s' = fetch_log s @ map (ListBlockChildren blockId) cs" by blast
  with assms show ?thesis by (simp add: filter_other_requests)
qed (use assms in
    \<open>auto simp: with_allPosts_cached[OF assms(1)] getAllPosts_cached[OF assms(1)]
      getPosts_def getPostBySlug_def getPostsByTag_def getRankedPosts_def
      getNumberOfPages_def getAllTags_def getPostsByFilter_def getBlock_def downloadFile_def\<close>)

lemma perform_all_keeps_posts:
  "postsCache s = Some posts \<Longrightarrow> perform_all cl lc n cs s = Some s' \<Longrightarrow>
   postsCache s' = Some posts \<and>
   filter is_query (fetch_log s') = filter is_query (fetch_log s)"
proof (induction cs arbitrary: s)
  case Nil
  then show ?case by simp
next
  case (Cons c cs)
  from Cons.prems(2) obtain s1 where
    p: "perform cl lc n c s = Some s1" and r: "perform_all cl lc n cs s1 = Some s'"
    by (auto split: option.splits)
  from perform_keeps_posts[OF Cons.prems(1) p] Cons.IH[OF _ r] show ?case by simp
qed

lemma with_allPosts_keeps_db:
  assumes "dbCache s = Some db" and "with_allPosts cl view s = Some (out, s')"
  shows "dbCache s' = Some db \<and>
    filter is_retrieve (fetch_log s') = filter is_retrieve (fetch_log s)"
proof -
  from with_allPosts_frame[OF assms(2)] obtain out2 where "getAllPosts cl s = Some (out2, s')"
    by blast
  from getAllPosts_frame[OF this] assms(1) show ?thesis
    by (auto simp: filter_other_requests)
qed

lemma perform_keeps_db:
  assumes "dbCache s = Some db" and "perform cl lc n c s = Some s'"
  shows "dbCache s' = Some db \<and>
    filter is_retrieve (fetch_log s') = filter is_retrieve (fetch_log s)"
proof (cases c)
  case GetDatabase
  with assms show ?thesis by (simp add: getDatabase_cached)
next
  case GetAllPosts
  with assms obtain out where "getAllPosts cl s = Some (out, s')" by auto
  from getAllPosts_frame[OF this] assms(1) show ?thesis
    by (auto simp: filter_other_requests)
next
  case (GetAllBlocksByBlockId blockId)
  with assms obtain out where g: "getAllBlocksByBlockId cl blockId s = Some (out, s')"
    by auto
  from getAllBlocksByBlockId_frame[OF g] assms(1) show ?thesis
    by (auto simp: filter_other_requests)
next
  case (GetPosts pageSize)
  with assms(2) obtain out where "getPosts cl pageSize s = Some (out, s')" by auto
  then show ?thesis unfolding getPosts_def by (rule with_allPosts_keeps_db[OF assms(1)])
next
  case (GetPostBySlug slug)
  with assms(2) obtain out where "getPostBySlug cl slug s = Some (out, s')" by auto
  then show ?thesis unfolding getPostBySlug_def by (rule with_allPosts_keeps_db[OF assms(1)])
next
  case (GetPostsByTag tagName pageSize)
  with assms(2) obtain out where "getPostsByTag cl tagName pageSize s = Some (out, s')" by auto
  then show ?thesis unfolding getPostsByTag_def by (rule with_allPosts_keeps_db[OF assms(1)])
next
  case (GetRankedPosts pageSize)
  with assms(2) obtain out where "getRankedPosts cl pageSize s = Some (out, s')" by auto
  then show ?thesis unfolding getRankedPosts_def by (rule with_allPosts_keeps_db[OF assms(1)])
next
  case GetNumberOfPages
  with assms(2) obtain out where "getNumberOfPages cl n s = Some (out, s')" by auto
  then show ?thesis unfolding getNumberOfPages_def by (rule with_allPosts_keeps_db[OF assms(1)])
next
  case GetAllTags
  with assms(2) obtain out where "getAllTags cl lc s = Some (out, s')" by auto
  then show ?thesis unfolding getAllTags_def by (rule with_allPosts_keeps_db[OF assms(1)])
next
  case (GetPostsByFilter f pageSize)
  with assms(2) obtain out where "getPostsByFilter cl f pageSize s = Some (out, s')" by auto
  then show ?thesis unfolding getPostsByFilter_def by (rule with_allPosts_keeps_db[OF assms(1)])
next
  case (GetBlock blockId)
  with assms show ?thesis by (simp add: getBlock_def)
next
  case (DownloadFile u)
  with assms show ?thesis by (simp add: downloadFile_def)
qed

lemma perform_all_keeps_db:
  "dbCache s = Some db \<Longrightarrow> perform_all cl lc n cs s = Some s' \<Longrightarrow>
   dbCache s' = Some db \<and>
   filter is_retrieve (fetch_log s') = filter is_retrieve (fetch_log s)"
proof (induction cs arbitrary: s)
  case Nil
  then show ?case by simp
next
  case (Cons c cs)
  from Cons.prems(2) obtain s1 where
    p: "perform cl lc n c s = Some s1" and r: "perform_all cl lc n cs s1 = Some s'"
    by (auto split: option.splits)
  from perform_keeps_db[OF Cons.prems(1) p] Cons.IH[OF _ r] show ?case by simp
qed

lemma query_again:
  assumes "with_allPosts cl view s = Some (Inr r, s')"
  shows "(\<exists>posts. getAllPosts cl s = Some (Inr posts, s') \<and> postsCache s' = Some posts \<and>
      r = view posts) \<and>
    with_allPosts cl view s' = Some (Inr r, s')"
proof -
  from with_allPosts_first[OF assms] obtain posts where
    g: "getAllPosts cl s = Some (Inr posts, s')" and r: "r = view posts" by blast
  from with_allPosts_after[OF g, of view] r g getAllPosts_fills[OF g] show ?thesis by blast
qed

subsection \<open>The scripted service\<close>

lemma three_pages_served:
  "{r, Suc r, Suc (Suc r)} \<inter> set down = {} \<Longrightarrow>
   serves (databases_query (mock_client down db three_pages blocks)) Absent r
     (map snd three_pages) (Suc (Suc (Suc r)))"
  by (simp add: mock_client_def answer_def three_pages_def)

lemma three_pages_posts:
  "map_result buildPost (concat (map results (map snd three_pages))) = Inr four_posts"
  by (simp add: three_pages_def four_posts_def buildPost_def ranked_page_def no_value_def
      bare_post_def joined_def)

lemma two_block_pages_served:
  "{r, Suc r} \<inter> set down = {} \<Longrightarrow>
   serves (blocks_children_list (mock_client down db pages two_block_pages) blockId) Absent r
     (map snd two_block_pages) (Suc (Suc r))"
  by (simp add: mock_client_def answer_def two_block_pages_def)

lemma mock_first_drain:
  "getAllPosts (mock_client [] db three_pages blocks) (initial 0)
     = Some (Inr four_posts,
             \<lparr> postsCache = Some four_posts, dbCache = None, remote = 3,
               fetch_log = [QueryDatabase Absent, QueryDatabase (Passed (Some ''c1'')),
                            QueryDatabase (Passed (Some ''c2''))] \<rparr>)"
proof -
  have p: "serves (databases_query (mock_client [] db three_pages blocks)) Absent
      (remote (initial (0::nat))) (map snd three_pages) 3"
    using three_pages_served[of 0 "[]"] by (simp add: initial_def numeral_3_eq_3)
  have n: "postsCache (initial (0::nat)) = None" by (simp add: initial_def)
  from getAllPosts_serves[OF n p three_pages_posts] show ?thesis
    by (simp add: initial_def cursor_chain_def three_pages_def)
qed

lemma mock_first_retrieve:
  "getDatabase (mock_client [] sample_db pages blocks) (initial 0)
     = (Inr (buildDatabase sample_db),
        \<lparr> postsCache = None, dbCache = Some (buildDatabase sample_db), remote = 1,
          fetch_log = [RetrieveDatabase] \<rparr>)"
  by (simp add: getDatabase_def initial_def numberOfRetry_def numeral_2_eq_2 call_def
      mock_client_def answer_def)

lemma mock_second_page_down:
  "fails_after (databases_query (mock_client [Suc 0] db three_pages blocks)) Absent 0
     [snd (hd three_pages)] (APIError ''timeout'') (Suc (Suc 0))"
  by (simp add: mock_client_def answer_def three_pages_def)

lemma mock_all_down:
  "getDatabase (mock_client [0, Suc 0, Suc (Suc 0)] db pages blocks) (initial 0)
     = (Inl (APIError ''timeout''),
        \<lparr> postsCache = None, dbCache = None, remote = 3,
          fetch_log = [RetrieveDatabase, RetrieveDatabase, RetrieveDatabase] \<rparr>)"
  by (simp add: getDatabase_def initial_def numberOfRetry_def numeral_2_eq_2 numeral_3_eq_3
      call_def mock_client_def answer_def)

lemma mock_cold_getPosts:
  "getPosts (mock_client [] db three_pages blocks) (Some 2) (initial 0)
     = Some (Inr [bare_post ''e1'', (bare_post ''e2'')\<lparr> Rank := 5 \<rparr>],
             \<lparr> postsCache = Some four_posts, dbCache = None, remote = 3,
               fetch_log = [QueryDatabase Absent, QueryDatabase (Passed (Some ''c1'')),
                            QueryDatabase (Passed (Some ''c2''))] \<rparr>)"
  by (simp add: getPosts_def with_allPosts_def mock_first_drain slice_0_nonneg
      pageSize_or_default_def) (simp add: four_posts_def)

lemma mock_cold_getNumberOfPages:
  "getNumberOfPages (mock_client [] db three_pages blocks) 3 (initial 0)
     = Some (Inr (Finite 2),
             \<lparr> postsCache = Some four_posts, dbCache = None, remote = 3,
               fetch_log = [QueryDatabase Absent, QueryDatabase (Passed (Some ''c1'')),
                            QueryDatabase (Passed (Some ''c2''))] \<rparr>)"
  by (simp add: getNumberOfPages_def with_allPosts_def mock_first_drain)
    (simp add: four_posts_def)

lemma mock_filled_db_calls:
  "perform_all (mock_client [] sample_db three_pages two_block_pages) code_compare 3
     [GetBlock ''b'', DownloadFile ''https://e/x.png'', GetPostsByFilter ''any'' None, GetDatabase]
     \<lparr> postsCache = Some four_posts, dbCache = Some (buildDatabase sample_db), remote = 6,
       fetch_log = [QueryDatabase Absent, QueryDatabase (Passed (Some ''c1'')),
                    QueryDatabase (Passed (Some ''c2'')), RetrieveDatabase,
                    ListBlockChildren ''page'' Absent,
                    ListBlockChildren ''page'' (Passed (Some ''n1''))] \<rparr>
   = Some \<lparr> postsCache = Some four_posts, dbCache = Some (buildDatabase sample_db), remote = 6,
            fetch_log = [QueryDatabase Absent, QueryDatabase (Passed (Some ''c1'')),
                         QueryDatabase (Passed (Some ''c2'')), RetrieveDatabase,
                         ListBlockChildren ''page'' Absent,
                         ListBlockChildren ''page'' (Passed (Some ''n1''))] \<rparr>"
  by (simp add: getBlock_def downloadFile_def getPostsByFilter_def with_allPosts_cached
      getDatabase_cached)

lemma mock_later_calls:
  "perform_all (mock_client [] sample_db three_pages two_block_pages) code_compare 3
     [GetDatabase, GetAllBlocksByBlockId ''page'', GetNumberOfPages,
      GetPostsByFilter ''any'' (Some 1), GetAllPosts]
     \<lparr> postsCache = Some four_posts, dbCache = None, remote = 3,
       fetch_log = [QueryDatabase Absent, QueryDatabase (Passed (Some ''c1'')),
                    QueryDatabase (Passed (Some ''c2''))] \<rparr>
   = Some \<lparr> postsCache = Some four_posts, dbCache = Some (buildDatabase sample_db), remote = 6,
            fetch_log = [QueryDatabase Absent, QueryDatabase (Passed (Some ''c1'')),
                         QueryDatabase (Passed (Some ''c2'')), RetrieveDatabase,
                         ListBlockChildren ''page'' Absent,
                         ListBlockChildren ''page'' (Passed (Some ''n1''))] \<rparr>"
proof -
  let ?cl = "mock_client [] sample_db three_pages two_block_pages"
  let ?s1 = "\<lparr> postsCache = Some four_posts, dbCache = None, remote = 3::nat,
       fetch_log = [QueryDatabase Absent, QueryDatabase (Passed (Some ''c1'')),
                    QueryDatabase (Passed (Some ''c2''))] \<rparr>"
  let ?s2 = "\<lparr> postsCache = Some four_posts, dbCache = Some (buildDatabase sample_db),
       remote = 4::nat,
       fetch_log = [QueryDatabase Absent, QueryDatabase (Passed (Some ''c1'')),
                    QueryDatabase (Passed (Some ''c2'')), RetrieveDatabase] \<rparr>"
  let ?s3 = "\<lparr> postsCache = Some four_posts, dbCache = Some (buildDatabase sample_db),
       remote = 6::nat,
       fetch_log = [QueryDatabase Absent, QueryDatabase (Passed (Some ''c1'')),
                    QueryDatabase (Passed (Some ''c2'')), RetrieveDatabase,
                    ListBlockChildren ''page'' Absent,
                    ListBlockChildren ''page'' (Passed (Some ''n1''))] \<rparr>"
  have d: "getDatabase ?cl ?s1 = (Inr (buildDatabase sample_db), ?s2)"
    by (simp add: getDatabase_def numberOfRetry_def numeral_2_eq_2 call_def
        mock_client_def answer_def)
  have "serves (blocks_children_list ?cl ''page'') Absent (remote ?s2)
      (map snd two_block_pages) 6"
    using two_block_pages_served[of 4 "[]" sample_db three_pages "''page''"]
    by (simp add: eval_nat_numeral)
  from getAllBlocksByBlockId_serves[OF this]
  have b: "getAllBlocksByBlockId ?cl ''page'' ?s2
      = Some (Inr (map buildBlock (concat (map results (map snd two_block_pages)))), ?s3)"
    by (simp add: cursor_chain_def two_block_pages_def)
  have c: "postsCache ?s3 = Some four_posts" by simp
  show ?thesis
    by (simp add: d b getNumberOfPages_def getPostsByFilter_def
        with_allPosts_cached[OF c] getAllPosts_cached[OF c])
qed

section \<open>The claims\<close>

text \<open>
  C1. Pagination is exhaustive. Let the service, asked first without a cursor and then
  with the \<^verbatim>\<open>next_cursor\<close> of each answer, serve the \<open>K\<close> pages \<open>pages\<close>, all but the last
  saying \<^verbatim>\<open>has_more\<close>. Then the loop of \<^verbatim>\<open>getAllPosts\<close> returns the concatenation of the
  pages' \<^verbatim>\<open>results\<close> in that order, \<open>N\<close> raw records where \<open>N\<close> is the sum of the page
  sizes, before any record is normalised; it makes exactly \<open>K\<close> fetches, the first
  without a cursor and each following one with the cursor of the page before it; and
  \<^verbatim>\<open>getAllPosts\<close> caches and returns the normalised records, \<open>N\<close> of them, when no record
  is malformed. \<^verbatim>\<open>getAllBlocksByBlockId\<close> does the same with the child-list call.
  Conversely the loop returns records only from such a run, whose last page is the first
  one not saying \<^verbatim>\<open>has_more\<close>.
\<close>

theorem drain_exhaustive:
  "(serves (databases_query cl) Absent (remote s) pages r' \<longrightarrow>
      drain_loop (\<lambda>c. call (QueryDatabase c) (databases_query cl c)) Absent [] s
        = Some (Inr (concat (map results pages)),
                s\<lparr> remote := r',
                   fetch_log := fetch_log s
                     @ map QueryDatabase (cursor_chain Absent (butlast pages)) \<rparr>) \<and>
      length (concat (map results pages)) = sum_list (map (\<lambda>p. length (results p)) pages) \<and>
      length (cursor_chain Absent (butlast pages)) = length pages \<and>
      (\<forall>posts. postsCache s = None \<and>
         map_result buildPost (concat (map results pages)) = Inr posts \<longrightarrow>
         getAllPosts cl s
           = Some (Inr posts,
                   s\<lparr> remote := r',
                      fetch_log := fetch_log s
                        @ map QueryDatabase (cursor_chain Absent (butlast pages)),
                      postsCache := Some posts \<rparr>) \<and>
         length posts = sum_list (map (\<lambda>p. length (results p)) pages))) \<and>
   (serves (blocks_children_list cl blockId) Absent (remote s) bpages rb \<longrightarrow>
      getAllBlocksByBlockId cl blockId s
        = Some (Inr (map buildBlock (concat (map results bpages))),
                s\<lparr> remote := rb,
                   fetch_log := fetch_log s
                     @ map (ListBlockChildren blockId) (cursor_chain Absent (butlast bpages)) \<rparr>) \<and>
      length (concat (map results bpages)) = sum_list (map (\<lambda>p. length (results p)) bpages)) \<and>
   (\<forall>raw s'. drain_loop (\<lambda>c. call (QueryDatabase c) (databases_query cl c)) Absent [] s
        = Some (Inr raw, s') \<longrightarrow>
      (\<exists>served. serves (\<lambda>c. call (QueryDatabase c) (databases_query cl c)) Absent s served s' \<and>
         raw = concat (map results served)))"
proof (intro conjI impI allI)
  assume sv: "serves (databases_query cl) Absent (remote s) pages r'"
  show "drain_loop (\<lambda>c. call (QueryDatabase c) (databases_query cl c)) Absent [] s
        = Some (Inr (concat (map results pages)),
                s\<lparr> remote := r',
                   fetch_log := fetch_log s
                     @ map QueryDatabase (cursor_chain Absent (butlast pages)) \<rparr>)"
    using drain_loop_call_serves[OF sv, of QueryDatabase "[]"] by simp
  show "length (concat (map results pages)) = sum_list (map (\<lambda>p. length (results p)) pages)"
    by (simp add: length_concat comp_def)
  from sv have "pages \<noteq> []" by (cases pages) auto
  then show "length (cursor_chain Absent (butlast pages)) = length pages"
    by (simp add: cursor_chain_def)
  fix posts
  assume a: "postsCache s = None \<and> map_result buildPost (concat (map results pages)) = Inr posts"
  then show "getAllPosts cl s
           = Some (Inr posts,
                   s\<lparr> remote := r',
                      fetch_log := fetch_log s
                        @ map QueryDatabase (cursor_chain Absent (butlast pages)),
                      postsCache := Some posts \<rparr>)"
    using getAllPosts_serves[OF _ sv] by blast
  from a length_map_result[of buildPost "concat (map results pages)" posts]
  show "length posts = sum_list (map (\<lambda>p. length (results p)) pages)"
    by (simp add: length_concat comp_def)
next
  assume sv: "serves (blocks_children_list cl blockId) Absent (remote s) bpages rb"
  show "getAllBlocksByBlockId cl blockId s
        = Some (Inr (map buildBlock (concat (map results bpages))),
                s\<lparr> remote := rb,
                   fetch_log := fetch_log s
                     @ map (ListBlockChildren blockId) (cursor_chain Absent (butlast bpages)) \<rparr>)"
    using drain_loop_call_serves[OF sv, of "ListBlockChildren blockId" "[]"]
    by (simp add: getAllBlocksByBlockId_def)
  show "length (concat (map results bpages)) = sum_list (map (\<lambda>p. length (results p)) bpages)"
    by (simp add: length_concat comp_def)
next
  fix raw s'
  assume d: "drain_loop (\<lambda>c. call (QueryDatabase c) (databases_query cl c)) Absent [] s
        = Some (Inr raw, s')"
  from drain_loop_sound[OF d]
  show "\<exists>served. serves (\<lambda>c. call (QueryDatabase c) (databases_query cl c)) Absent s served s' \<and>
         raw = concat (map results served)" by simp
qed

text \<open>
  Four records on three pages of sizes 2, 1, 1 and three blocks on two pages: both
  drains return everything in page order, with one fetch per page, and the four records
  are the concatenation of a served run.
\<close>

theorem drain_exhaustive_witness:
  "getAllPosts (mock_client [] sample_db three_pages two_block_pages) (initial 0)
     = Some (Inr four_posts,
             \<lparr> postsCache = Some four_posts, dbCache = None, remote = 3,
               fetch_log = [QueryDatabase Absent, QueryDatabase (Passed (Some ''c1'')),
                            QueryDatabase (Passed (Some ''c2''))] \<rparr>) \<and>
   getAllBlocksByBlockId (mock_client [] sample_db three_pages two_block_pages) ''page'' (initial 0)
     = Some (Inr (map buildBlock [block ''b1'', block ''b2'', block ''b3'']),
             \<lparr> postsCache = None, dbCache = None, remote = 2,
               fetch_log = [ListBlockChildren ''page'' Absent,
                            ListBlockChildren ''page'' (Passed (Some ''n1''))] \<rparr>) \<and>
   (\<exists>served.
      serves (\<lambda>c. call (QueryDatabase c)
                (databases_query (mock_client [] sample_db three_pages two_block_pages) c))
        Absent (initial 0) served
        \<lparr> postsCache = None, dbCache = None, remote = 3,
          fetch_log = [QueryDatabase Absent, QueryDatabase (Passed (Some ''c1'')),
                       QueryDatabase (Passed (Some ''c2''))] \<rparr> \<and>
      [ranked_page ''e1'' 0, ranked_page ''e2'' 5, ranked_page ''e3'' 5, ranked_page ''e4'' 3]
        = concat (map results served))"
proof -
  let ?cl = "mock_client [] sample_db three_pages two_block_pages"
  have p: "serves (databases_query ?cl) Absent (remote (initial (0::nat))) (map snd three_pages) 3"
    using three_pages_served[of 0 "[]"] by (simp add: initial_def numeral_3_eq_3)
  have b: "serves (blocks_children_list ?cl ''page'') Absent (remote (initial (0::nat)))
      (map snd two_block_pages) 2"
    using two_block_pages_served[of 0 "[]"] by (simp add: initial_def numeral_2_eq_2)
  have c: "postsCache (initial (0::nat)) = None \<and>
      map_result buildPost (concat (map results (map snd three_pages))) = Inr four_posts"
    using three_pages_posts by (simp add: initial_def)
  note rule = drain_exhaustive[where cl = ?cl and s = "initial 0" and pages = "map snd three_pages"
      and r' = 3 and blockId = "''page''" and bpages = "map snd two_block_pages" and rb = 2]
  note loop = rule[THEN conjunct1, THEN mp, OF p, THEN conjunct1]
  note posts = rule[THEN conjunct1, THEN mp, OF p, THEN conjunct2, THEN conjunct2, THEN conjunct2,
      THEN spec, THEN mp, OF c, THEN conjunct1]
  note blocks = rule[THEN conjunct2, THEN conjunct1, THEN mp, OF b, THEN conjunct1]
  note conv = rule[THEN conjunct2, THEN conjunct2, THEN spec, THEN spec, THEN mp, OF loop]
  from posts blocks conv show ?thesis
    by (simp add: initial_def cursor_chain_def three_pages_def two_block_pages_def)
qed

text \<open>
  C2. The caches are filled once and never emptied.
  A successful first call, of \<^verbatim>\<open>getAllPosts\<close> or of any query function built on it
  (\<^verbatim>\<open>getPosts\<close>, \<^verbatim>\<open>getPostBySlug\<close>, \<^verbatim>\<open>getPostsByTag\<close>, \<^verbatim>\<open>getRankedPosts\<close>,
  \<^verbatim>\<open>getNumberOfPages\<close>, \<^verbatim>\<open>getAllTags\<close>, \<^verbatim>\<open>getPostsByFilter\<close>), is one run of
  \<^verbatim>\<open>getAllPosts\<close>: it leaves \<^verbatim>\<open>postsCache\<close> holding the collection, its result is its view
  of that collection, and the same call made again returns the same value and leaves
  the state as it is, the log of remote calls included.
  From then on, whatever exported functions are called in between and however often,
  \<^verbatim>\<open>postsCache\<close> holds the same collection, no further page query is logged, and
  \<^verbatim>\<open>getAllPosts\<close> returns that collection.
  The same holds for \<^verbatim>\<open>getDatabase\<close>, \<^verbatim>\<open>dbCache\<close> and the database retrievals.
\<close>

theorem cache_idempotence:
  "(getAllPosts cl s = Some (Inr posts, s') \<longrightarrow>
      postsCache s' = Some posts \<and> getAllPosts cl s' = Some (Inr posts, s')) \<and>
   (getPosts cl pageSize s = Some (Inr page, s') \<longrightarrow>
      (\<exists>posts. getAllPosts cl s = Some (Inr posts, s') \<and> postsCache s' = Some posts \<and>
         page = slice posts 0 (pageSize_or_default pageSize)) \<and>
      getPosts cl pageSize s' = Some (Inr page, s')) \<and>
   (getPostBySlug cl slug s = Some (Inr found, s') \<longrightarrow>
      (\<exists>posts. getAllPosts cl s = Some (Inr posts, s') \<and> postsCache s' = Some posts \<and>
         found = find (\<lambda>post. Slug post = slug) posts) \<and>
      getPostBySlug cl slug s' = Some (Inr found, s')) \<and>
   (getPostsByTag cl tagName pageSize s = Some (Inr tagged, s') \<longrightarrow>
      (\<exists>posts. getAllPosts cl s = Some (Inr posts, s') \<and> postsCache s' = Some posts \<and>
         tagged = slice (filter (\<lambda>p. \<exists>t \<in> set (Tags p). name t = tagName) posts)
                    0 (pageSize_or_default pageSize)) \<and>
      getPostsByTag cl tagName pageSize s' = Some (Inr tagged, s')) \<and>
   (getRankedPosts cl pageSize s = Some (Inr ranked, s') \<longrightarrow>
      (\<exists>posts. getAllPosts cl s = Some (Inr posts, s') \<and> postsCache s' = Some posts \<and>
         ranked = slice (js_sort (\<lambda>a b. Rank b - Rank a)
                           (filter (\<lambda>post. Rank post \<noteq> 0) posts))
                    0 (pageSize_or_default pageSize)) \<and>
      getRankedPosts cl pageSize s' = Some (Inr ranked, s')) \<and>
   (getNumberOfPages cl n s = Some (Inr pageCount, s') \<longrightarrow>
      (\<exists>posts. getAllPosts cl s = Some (Inr posts, s') \<and> postsCache s' = Some posts \<and>
         pageCount = (if n = 0 then (if length posts = 0 then NaN else Infinity)
                      else Finite (- ((- int (length posts)) div n)))) \<and>
      getNumberOfPages cl n s' = Some (Inr pageCount, s')) \<and>
   (getAllTags cl localeCompare s = Some (Inr tags, s') \<longrightarrow>
      (\<exists>posts. getAllPosts cl s = Some (Inr posts, s') \<and> postsCache s' = Some posts \<and>
         tags = js_sort (\<lambda>a b. localeCompare (name a) (name b))
                  (fst (foldl tag_step ([], []) (concat (map Tags posts))))) \<and>
      getAllTags cl localeCompare s' = Some (Inr tags, s')) \<and>
   (getPostsByFilter cl f pageSize s = Some (Inr filtered, s') \<longrightarrow>
      (\<exists>posts. getAllPosts cl s = Some (Inr posts, s') \<and> postsCache s' = Some posts \<and>
         filtered = slice posts 0 (pageSize_or_default pageSize)) \<and>
      getPostsByFilter cl f pageSize s' = Some (Inr filtered, s')) \<and>
   (postsCache s = Some posts \<and> perform_all cl localeCompare n calls s = Some s' \<longrightarrow>
      postsCache s' = Some posts \<and>
      filter is_query (fetch_log s') = filter is_query (fetch_log s) \<and>
      getAllPosts cl s' = Some (Inr posts, s')) \<and>
   (getDatabase cl s = (Inr db, s') \<longrightarrow>
      dbCache s' = Some db \<and> getDatabase cl s' = (Inr db, s')) \<and>
   (dbCache s = Some db \<and> perform_all cl localeCompare n calls s = Some s' \<longrightarrow>
      dbCache s' = Some db \<and>
      filter is_retrieve (fetch_log s') = filter is_retrieve (fetch_log s) \<and>
      getDatabase cl s' = (Inr db, s'))"
proof (intro conjI impI)
  assume first: "getAllPosts cl s = Some (Inr posts, s')"
  show "postsCache s' = Some posts" using first by (rule getAllPosts_fills)
  then show "getAllPosts cl s' = Some (Inr posts, s')" by (rule getAllPosts_cached)
next
  assume a: "getPosts cl pageSize s = Some (Inr page, s')"
  note q = query_again[OF a[unfolded getPosts_def]]
  from q show "\<exists>posts. getAllPosts cl s = Some (Inr posts, s') \<and> postsCache s' = Some posts \<and>
         page = slice posts 0 (pageSize_or_default pageSize)" by (rule conjunct1)
  from q show "getPosts cl pageSize s' = Some (Inr page, s')" by (simp add: getPosts_def)
next
  assume a: "getPostBySlug cl slug s = Some (Inr found, s')"
  note q = query_again[OF a[unfolded getPostBySlug_def]]
  from q show "\<exists>posts. getAllPosts cl s = Some (Inr posts, s') \<and> postsCache s' = Some posts \<and>
         found = find (\<lambda>post. Slug post = slug) posts" by (rule conjunct1)
  from q show "getPostBySlug cl slug s' = Some (Inr found, s')" by (simp add: getPostBySlug_def)
next
  assume a: "getPostsByTag cl tagName pageSize s = Some (Inr tagged, s')"
  note q = query_again[OF a[unfolded getPostsByTag_def]]
  from q show "\<exists>posts. getAllPosts cl s = Some (Inr posts, s') \<and> postsCache s' = Some posts \<and>
         tagged = slice (filter (\<lambda>p. \<exists>t \<in> set (Tags p). name t = tagName) posts)
                    0 (pageSize_or_default pageSize)" by (rule conjunct1)
  from q show "getPostsByTag cl tagName pageSize s' = Some (Inr tagged, s')"
    by (simp add: getPostsByTag_def)
next
  assume a: "getRankedPosts cl pageSize s = Some (Inr ranked, s')"
  note q = query_again[OF a[unfolded getRankedPosts_def]]
  from q show "\<exists>posts. getAllPosts cl s = Some (Inr posts, s') \<and> postsCache s' = Some posts \<and>
         ranked = slice (js_sort (\<lambda>a b. Rank b - Rank a)
                           (filter (\<lambda>post. Rank post \<noteq> 0) posts))
                    0 (pageSize_or_default pageSize)" by (rule conjunct1)
  from q show "getRankedPosts cl pageSize s' = Some (Inr ranked, s')"
    by (simp add: getRankedPosts_def)
next
  assume a: "getNumberOfPages cl n s = Some (Inr pageCount, s')"
  note q = query_again[OF a[unfolded getNumberOfPages_def]]
  from q show "\<exists>posts. getAllPosts cl s = Some (Inr posts, s') \<and> postsCache s' = Some posts \<and>
         pageCount = (if n = 0 then (if length posts = 0 then NaN else Infinity)
                      else Finite (- ((- int (length posts)) div n)))" by (rule conjunct1)
  from q show "getNumberOfPages cl n s' = Some (Inr pageCount, s')"
    by (simp add: getNumberOfPages_def)
next
  assume a: "getAllTags cl localeCompare s = Some (Inr tags, s')"
  note q = query_again[OF a[unfolded getAllTags_def]]
  from q show "\<exists>posts. getAllPosts cl s = Some (Inr posts, s') \<and> postsCache s' = Some posts \<and>
         tags = js_sort (\<lambda>a b. localeCompare (name a) (name b))
                  (fst (foldl tag_step ([], []) (concat (map Tags posts))))" by (rule conjunct1)
  from q show "getAllTags cl localeCompare s' = Some (Inr tags, s')"
    by (simp add: getAllTags_def)
next
  assume a: "getPostsByFilter cl f pageSize s = Some (Inr filtered, s')"
  note q = query_again[OF a[unfolded getPostsByFilter_def]]
  from q show "\<exists>posts. getAllPosts cl s = Some (Inr posts, s') \<and> postsCache s' = Some posts \<and>
         filtered = slice posts 0 (pageSize_or_default pageSize)" by (rule conjunct1)
  from q show "getPostsByFilter cl f pageSize s' = Some (Inr filtered, s')"
    by (simp add: getPostsByFilter_def)
next
  assume a: "postsCache s = Some posts \<and> perform_all cl localeCompare n calls s = Some s'"
  note k = perform_all_keeps_posts[OF a[THEN conjunct1] a[THEN conjunct2]]
  from k show "postsCache s' = Some posts" by (rule conjunct1)
  then show "getAllPosts cl s' = Some (Inr posts, s')" by (rule getAllPosts_cached)
  from k show "filter is_query (fetch_log s') = filter is_query (fetch_log s)"
    by (rule conjunct2)
next
  assume "getDatabase cl s = (Inr db, s')"
  then show "dbCache s' = Some db" by (rule getDatabase_fills)
  then show "getDatabase cl s' = (Inr db, s')" by (rule getDatabase_cached)
next
  assume a: "dbCache s = Some db \<and> perform_all cl localeCompare n calls s = Some s'"
  note k = perform_all_keeps_db[OF a[THEN conjunct1] a[THEN conjunct2]]
  from k show "dbCache s' = Some db" by (rule conjunct1)
  then show "getDatabase cl s' = (Inr db, s')" by (rule getDatabase_cached)
  from k show "filter is_retrieve (fetch_log s') = filter is_retrieve (fetch_log s)"
    by (rule conjunct2)
qed

text \<open>
  Against the scripted service: a first \<^verbatim>\<open>getPosts(2)\<close> on empty caches drains three
  pages, and the second fetches nothing; so does \<^verbatim>\<open>getNumberOfPages\<close>, which counts
  two pages of three posts. After \<^verbatim>\<open>getDatabase\<close>, \<^verbatim>\<open>getAllBlocksByBlockId\<close> and three more
  calls the collection is still cached, and after four further calls so is the database.
\<close>

theorem cache_idempotence_witness:
  "getPosts (mock_client [] sample_db three_pages two_block_pages) (Some 2) (initial 0)
     = Some (Inr [bare_post ''e1'', (bare_post ''e2'')\<lparr> Rank := 5 \<rparr>],
             \<lparr> postsCache = Some four_posts, dbCache = None, remote = 3,
               fetch_log = [QueryDatabase Absent, QueryDatabase (Passed (Some ''c1'')),
                            QueryDatabase (Passed (Some ''c2''))] \<rparr>) \<and>
   getPosts (mock_client [] sample_db three_pages two_block_pages) (Some 2)
      \<lparr> postsCache = Some four_posts, dbCache = None, remote = 3,
        fetch_log = [QueryDatabase Absent, QueryDatabase (Passed (Some ''c1'')),
                     QueryDatabase (Passed (Some ''c2''))] \<rparr>
     = Some (Inr [bare_post ''e1'', (bare_post ''e2'')\<lparr> Rank := 5 \<rparr>],
             \<lparr> postsCache = Some four_posts, dbCache = None, remote = 3,
               fetch_log = [QueryDatabase Absent, QueryDatabase (Passed (Some ''c1'')),
                            QueryDatabase (Passed (Some ''c2''))] \<rparr>) \<and>
   getAllPosts (mock_client [] sample_db three_pages two_block_pages)
      \<lparr> postsCache = Some four_posts, dbCache = Some (buildDatabase sample_db), remote = 6,
        fetch_log = [QueryDatabase Absent, QueryDatabase (Passed (Some ''c1'')),
                     QueryDatabase (Passed (Some ''c2'')), RetrieveDatabase,
                     ListBlockChildren ''page'' Absent,
                     ListBlockChildren ''page'' (Passed (Some ''n1''))] \<rparr>
     = Some (Inr four_posts,
             \<lparr> postsCache = Some four_posts, dbCache = Some (buildDatabase sample_db), remote = 6,
               fetch_log = [QueryDatabase Absent, QueryDatabase (Passed (Some ''c1'')),
                            QueryDatabase (Passed (Some ''c2'')), RetrieveDatabase,
                            ListBlockChildren ''page'' Absent,
                            ListBlockChildren ''page'' (Passed (Some ''n1''))] \<rparr>) \<and>
   getNumberOfPages (mock_client [] sample_db three_pages two_block_pages) 3
      \<lparr> postsCache = Some four_posts, dbCache = None, remote = 3,
        fetch_log = [QueryDatabase Absent, QueryDatabase (Passed (Some ''c1'')),
                     QueryDatabase (Passed (Some ''c2''))] \<rparr>
     = Some (Inr (Finite 2),
             \<lparr> postsCache = Some four_posts, dbCache = None, remote = 3,
               fetch_log = [QueryDatabase Absent, QueryDatabase (Passed (Some ''c1'')),
                            QueryDatabase (Passed (Some ''c2''))] \<rparr>) \<and>
   getDatabase (mock_client [] sample_db three_pages two_block_pages)
      \<lparr> postsCache = Some four_posts, dbCache = Some (buildDatabase sample_db), remote = 6,
        fetch_log = [QueryDatabase Absent, QueryDatabase (Passed (Some ''c1'')),
                     QueryDatabase (Passed (Some ''c2'')), RetrieveDatabase,
                     ListBlockChildren ''page'' Absent,
                     ListBlockChildren ''page'' (Passed (Some ''n1''))] \<rparr>
     = (Inr (buildDatabase sample_db),
        \<lparr> postsCache = Some four_posts, dbCache = Some (buildDatabase sample_db), remote = 6,
          fetch_log = [QueryDatabase Absent, QueryDatabase (Passed (Some ''c1'')),
                       QueryDatabase (Passed (Some ''c2'')), RetrieveDatabase,
                       ListBlockChildren ''page'' Absent,
                       ListBlockChildren ''page'' (Passed (Some ''n1''))] \<rparr>) \<and>
   getDatabase (mock_client [] sample_db three_pages two_block_pages) (initial 0)
     = (Inr (buildDatabase sample_db),
        \<lparr> postsCache = None, dbCache = Some (buildDatabase sample_db), remote = 1,
          fetch_log = [RetrieveDatabase] \<rparr>) \<and>
   getDatabase (mock_client [] sample_db three_pages two_block_pages)
      \<lparr> postsCache = None, dbCache = Some (buildDatabase sample_db), remote = 1,
        fetch_log = [RetrieveDatabase] \<rparr>
     = (Inr (buildDatabase sample_db),
        \<lparr> postsCache = None, dbCache = Some (buildDatabase sample_db), remote = 1,
          fetch_log = [RetrieveDatabase] \<rparr>)"
proof -
  let ?cl = "mock_client [] sample_db three_pages two_block_pages"
  let ?s1 = "\<lparr> postsCache = Some four_posts, dbCache = None, remote = 3::nat,
       fetch_log = [QueryDatabase Absent, QueryDatabase (Passed (Some ''c1'')),
                    QueryDatabase (Passed (Some ''c2''))] \<rparr>"
  let ?calls = "[GetDatabase, GetAllBlocksByBlockId ''page'', GetNumberOfPages,
      GetPostsByFilter ''any'' (Some 1), GetAllPosts]"
  note cold = cache_idempotence[where cl = ?cl and s = "initial 0" and s' = ?s1
      and pageSize = "Some 2"]
  note again = cold[THEN conjunct2, THEN conjunct1, THEN mp, OF mock_cold_getPosts,
      THEN conjunct2]
  have h: "postsCache ?s1 = Some four_posts \<and>
      perform_all ?cl code_compare 3 ?calls ?s1
        = Some \<lparr> postsCache = Some four_posts, dbCache = Some (buildDatabase sample_db),
                 remote = 6,
                 fetch_log = [QueryDatabase Absent, QueryDatabase (Passed (Some ''c1'')),
                              QueryDatabase (Passed (Some ''c2'')), RetrieveDatabase,
                              ListBlockChildren ''page'' Absent,
                              ListBlockChildren ''page'' (Passed (Some ''n1''))] \<rparr>"
    using mock_later_calls by simp
  note later = cache_idempotence[where cl = ?cl and s = ?s1 and posts = four_posts
      and localeCompare = code_compare and n = 3 and calls = ?calls,
      THEN conjunct2, THEN conjunct2, THEN conjunct2, THEN conjunct2, THEN conjunct2,
      THEN conjunct2, THEN conjunct2, THEN conjunct2, THEN conjunct1, THEN mp, OF h,
      THEN conjunct2, THEN conjunct2]
  note db = cache_idempotence[where cl = ?cl and s = "initial 0",
      THEN conjunct2, THEN conjunct2, THEN conjunct2, THEN conjunct2, THEN conjunct2,
      THEN conjunct2, THEN conjunct2, THEN conjunct2, THEN conjunct2, THEN conjunct1,
      THEN mp, OF mock_first_retrieve, THEN conjunct2]
  note pages = cache_idempotence[where cl = ?cl and s = "initial 0" and s' = ?s1 and n = 3,
      THEN conjunct2, THEN conjunct2, THEN conjunct2, THEN conjunct2, THEN conjunct2,
      THEN conjunct1, THEN mp, OF mock_cold_getNumberOfPages, THEN conjunct2]
  let ?s3 = "\<lparr> postsCache = Some four_posts, dbCache = Some (buildDatabase sample_db),
       remote = 6::nat,
       fetch_log = [QueryDatabase Absent, QueryDatabase (Passed (Some ''c1'')),
                    QueryDatabase (Passed (Some ''c2'')), RetrieveDatabase,
                    ListBlockChildren ''page'' Absent,
                    ListBlockChildren ''page'' (Passed (Some ''n1''))] \<rparr>"
  have g: "dbCache ?s3 = Some (buildDatabase sample_db) \<and>
      perform_all ?cl code_compare 3
        [GetBlock ''b'', DownloadFile ''https://e/x.png'', GetPostsByFilter ''any'' None,
         GetDatabase] ?s3 = Some ?s3"
    using mock_filled_db_calls by simp
  note kept = cache_idempotence[where cl = ?cl and s = ?s3 and localeCompare = code_compare
      and n = 3,
      THEN conjunct2, THEN conjunct2, THEN conjunct2, THEN conjunct2, THEN conjunct2,
      THEN conjunct2, THEN conjunct2, THEN conjunct2, THEN conjunct2, THEN conjunct2,
      THEN mp, OF g, THEN conjunct2, THEN conjunct2]
  from again later pages kept db show ?thesis
    by (simp add: mock_cold_getPosts mock_first_retrieve)
qed

text \<open>
  C3. A failed drain leaves the cache empty. If the service serves some pages and then
  rejects a fetch, \<^verbatim>\<open>getAllPosts\<close> rejects with that error and changes nothing but the
  service and the log. Whenever \<^verbatim>\<open>getAllPosts\<close> rejects (a fetch failed, or a record could
  not be normalised), \<^verbatim>\<open>postsCache\<close> is still empty, and the first fetch of a later
  call has no cursor: the drain starts over. Whenever \<^verbatim>\<open>getDatabase\<close> rejects, after its
  retries, \<^verbatim>\<open>dbCache\<close> is still empty and a later call retrieves again.
\<close>

theorem failure_isolation:
  "(postsCache s = None \<and> fails_after (databases_query cl) Absent (remote s) pages err r' \<longrightarrow>
      getAllPosts cl s
        = Some (Inl err,
                s\<lparr> remote := r',
                   fetch_log := fetch_log s @ map QueryDatabase (cursor_chain Absent pages) \<rparr>)) \<and>
   (getAllPosts cl s = Some (Inl err, s') \<longrightarrow>
      postsCache s' = None \<and> dbCache s' = dbCache s \<and>
      (\<forall>out s''. getAllPosts cl s' = Some (out, s'') \<longrightarrow>
         (\<exists>rest. fetch_log s'' = fetch_log s' @ QueryDatabase Absent # rest))) \<and>
   (getDatabase cl t = (Inl err, t') \<longrightarrow>
      dbCache t' = None \<and> postsCache t' = postsCache t \<and>
      (\<exists>rest. fetch_log (snd (getDatabase cl t')) = fetch_log t' @ RetrieveDatabase # rest))"
proof (intro conjI impI allI)
  assume a: "postsCache s = None \<and> fails_after (databases_query cl) Absent (remote s) pages err r'"
  show "getAllPosts cl s
        = Some (Inl err,
                s\<lparr> remote := r',
                   fetch_log := fetch_log s @ map QueryDatabase (cursor_chain Absent pages) \<rparr>)"
    by (rule getAllPosts_fails[OF a[THEN conjunct1] a[THEN conjunct2]])
next
  assume failed: "getAllPosts cl s = Some (Inl err, s')"
  note st = getAllPosts_error_state[OF failed]
  from st show "postsCache s' = None" by simp
  from st show "dbCache s' = dbCache s" by simp
  fix out s''
  assume again: "getAllPosts cl s' = Some (out, s'')"
  from st have "postsCache s' = None" by simp
  then show "\<exists>rest. fetch_log s'' = fetch_log s' @ QueryDatabase Absent # rest"
    using again by (rule getAllPosts_restarts)
next
  assume failed: "getDatabase cl t = (Inl err, t')"
  note st = getDatabase_error_state[OF failed]
  from st show "dbCache t' = None" by simp
  from st show "postsCache t' = postsCache t" by simp
  from st have "dbCache t' = None" by simp
  then show "\<exists>rest. fetch_log (snd (getDatabase cl t')) = fetch_log t' @ RetrieveDatabase # rest"
    by (rule getDatabase_restarts)
qed

text \<open>
  The second call to the service is rejected: the first drain fails on page 2 of 3, the
  cache stays empty, and the next drain fetches pages 1, 2 and 3. A service that rejects
  three retrievals in a row leaves \<^verbatim>\<open>dbCache\<close> empty.
\<close>

theorem failure_isolation_witness:
  "getAllPosts (mock_client [Suc 0] sample_db three_pages two_block_pages) (initial 0)
     = Some (Inl (APIError ''timeout''),
             \<lparr> postsCache = None, dbCache = None, remote = 2,
               fetch_log = [QueryDatabase Absent, QueryDatabase (Passed (Some ''c1''))] \<rparr>) \<and>
   getAllPosts (mock_client [Suc 0] sample_db three_pages two_block_pages)
      \<lparr> postsCache = None, dbCache = None, remote = 2,
        fetch_log = [QueryDatabase Absent, QueryDatabase (Passed (Some ''c1''))] \<rparr>
     = Some (Inr four_posts,
             \<lparr> postsCache = Some four_posts, dbCache = None, remote = 5,
               fetch_log = [QueryDatabase Absent, QueryDatabase (Passed (Some ''c1'')),
                            QueryDatabase Absent, QueryDatabase (Passed (Some ''c1'')),
                            QueryDatabase (Passed (Some ''c2''))] \<rparr>) \<and>
   dbCache (snd (getDatabase (mock_client [0, Suc 0, Suc (Suc 0)] sample_db three_pages
      two_block_pages) (initial 0))) = None"
proof -
  let ?cl = "mock_client [Suc 0] sample_db three_pages two_block_pages"
  let ?s1 = "\<lparr> postsCache = None, dbCache = None, remote = 2::nat,
        fetch_log = [QueryDatabase Absent, QueryDatabase (Passed (Some ''c1''))] \<rparr>"
  let ?s2 = "\<lparr> postsCache = Some four_posts, dbCache = None, remote = 5::nat,
               fetch_log = [QueryDatabase Absent, QueryDatabase (Passed (Some ''c1'')),
                            QueryDatabase Absent, QueryDatabase (Passed (Some ''c1'')),
                            QueryDatabase (Passed (Some ''c2''))] \<rparr>"
  have h: "postsCache (initial (0::nat)) = None \<and>
      fails_after (databases_query ?cl) Absent (remote (initial (0::nat)))
        [snd (hd three_pages)] (APIError ''timeout'') 2"
    using mock_second_page_down[of sample_db two_block_pages]
    by (simp add: initial_def numeral_2_eq_2)
  note rule = failure_isolation[where cl = ?cl and s = "initial 0"
      and pages = "[snd (hd three_pages)]" and err = "APIError ''timeout''" and r' = 2]
  from rule[THEN conjunct1, THEN mp, OF h]
  have first: "getAllPosts ?cl (initial 0) = Some (Inl (APIError ''timeout''), ?s1)"
    by (simp add: initial_def cursor_chain_def three_pages_def)
  note after = rule[where s' = ?s1, THEN conjunct2, THEN conjunct1, THEN mp, OF first]
  have p: "serves (databases_query ?cl) Absent (remote ?s1) (map snd three_pages) 5"
    using three_pages_served[of 2 "[Suc 0]" sample_db two_block_pages]
    by (simp add: eval_nat_numeral)
  from getAllPosts_serves[OF after[THEN conjunct1] p three_pages_posts]
  have second: "getAllPosts ?cl ?s1 = Some (Inr four_posts, ?s2)"
    by (simp add: cursor_chain_def three_pages_def)
  note restart = after[THEN conjunct2, THEN conjunct2, THEN spec, THEN spec, THEN mp, OF second]
  note db = failure_isolation[where cl = "mock_client [0, Suc 0, Suc (Suc 0)] sample_db
        three_pages two_block_pages" and t = "initial 0",
      THEN conjunct2, THEN conjunct2, THEN mp, OF mock_all_down, THEN conjunct1]
  from first second restart db show ?thesis by (simp add: mock_all_down)
qed

text \<open>
  C4. Tags follow the select-vs-multiselect rule. Whenever the record has its
  \<^verbatim>\<open>properties\<close>, the normaliser returns a post, and: if \<^verbatim>\<open>Category.select\<close> is present and
  not null, \<open>Tags\<close> is the one-element list of that value, whatever \<^verbatim>\<open>multi_select\<close> holds;
  otherwise, if \<^verbatim>\<open>Category.multi_select\<close> is present, \<open>Tags\<close> is that list unchanged;
  otherwise (no \<^verbatim>\<open>Category\<close>, or neither member) \<open>Tags\<close> is empty.
\<close>

theorem tags_select_vs_multiselect:
  "properties p = Some prop \<Longrightarrow>
   \<exists>post. buildPost p = Inr post \<and>
     (\<forall>c s. prop ''Category'' = Some c \<and> select c = Some s \<longrightarrow> Tags post = [s]) \<and>
     (\<forall>c ms. prop ''Category'' = Some c \<and> select c = None \<and> multi_select c = Some ms
        \<longrightarrow> Tags post = ms) \<and>
     (prop ''Category'' = None \<or>
      (\<exists>c. prop ''Category'' = Some c \<and> select c = None \<and> multi_select c = None)
        \<longrightarrow> Tags post = [])"
  by (auto simp: buildPost_def Let_def)

text \<open>
  The three records of the specification's example, and a fourth that carries both
  shapes: the single select wins and the multi-select is not appended to it.
\<close>

theorem tags_select_vs_multiselect_witness:
  "(\<exists>post. buildPost (category_page (Some (tag ''Tech'' ''blue'')) None) = Inr post \<and>
      Tags post = [tag ''Tech'' ''blue'']) \<and>
   (\<exists>post. buildPost (category_page None (Some [tag ''A'' ''red'', tag ''B'' ''red''])) = Inr post \<and>
      Tags post = [tag ''A'' ''red'', tag ''B'' ''red'']) \<and>
   (\<exists>post. buildPost (category_page None None) = Inr post \<and> Tags post = []) \<and>
   (\<exists>post. buildPost (category_page (Some (tag ''Tech'' ''blue'')) (Some [tag ''A'' ''red'']))
        = Inr post \<and>
      Tags post = [tag ''Tech'' ''blue''])"
proof -
  have p: "properties (category_page s ms) =
      Some [''Category'' \<mapsto> no_value\<lparr> select := s, multi_select := ms \<rparr>]" for s ms
    by (simp add: category_page_def)
  show ?thesis
    using tags_select_vs_multiselect[OF p, of "Some (tag ''Tech'' ''blue'')" None]
      tags_select_vs_multiselect[OF p, of None "Some [tag ''A'' ''red'', tag ''B'' ''red'']"]
      tags_select_vs_multiselect[OF p, of None None]
      tags_select_vs_multiselect[OF p, of "Some (tag ''Tech'' ''blue'')" "Some [tag ''A'' ''red'']"]
    by (simp add: no_value_def)
qed

text \<open>
  C5. The normaliser is total on missing optional fields. \<open>Option.bind (prop k) member\<close> is
  \<open>None\<close> exactly when the property \<open>k\<close> is absent or its \<open>member\<close> is absent or null.
  Whenever the record has its \<^verbatim>\<open>properties\<close>, the normaliser returns a post and raises
  nothing, and each missing optional field yields its default: the empty string for
  \<open>Title\<close>, \<open>Slug\<close>, \<open>Date\<close>, \<open>LastUpdatedDate\<close> and \<open>Excerpt\<close>, the empty list for \<open>Tags\<close>,
  \<open>None\<close> (\<^verbatim>\<open>null\<close>) for \<open>Status\<close> and \<open>FeaturedImage\<close>, and 0 for \<open>Rank\<close>.
\<close>

theorem buildPost_null_safe:
  "properties p = Some prop \<Longrightarrow>
   \<exists>post. buildPost p = Inr post \<and>
     (Option.bind (prop ''Page'') title = None \<longrightarrow> Title post = []) \<and>
     (Option.bind (prop ''Slug'') rich_text = None \<longrightarrow> Slug post = []) \<and>
     (Option.bind (prop ''Date'') date = None \<longrightarrow> Date post = []) \<and>
     (Option.bind (prop ''LastUpdatedDate'') date = None \<longrightarrow> LastUpdatedDate post = []) \<and>
     (Option.bind (prop ''Excerpt'') rich_text = None \<longrightarrow> Excerpt post = []) \<and>
     (Option.bind (prop ''Category'') select = None \<and>
      Option.bind (prop ''Category'') multi_select = None \<longrightarrow> Tags post = []) \<and>
     (Option.bind (prop ''Status'') select = None \<longrightarrow> Status post = None) \<and>
     (Option.bind (prop ''FeaturedImage'') files = None \<longrightarrow> FeaturedImage post = None) \<and>
     (Option.bind (prop ''Rank'') number = None \<longrightarrow> Rank post = 0)"
  by (auto simp: buildPost_def Let_def joined_def split: option.splits)

text \<open>
  A record with an empty \<^verbatim>\<open>properties\<close> object, and one whose nine properties are all
  present but hold none of the members read: both normalise to the all-defaults post.
\<close>

theorem buildPost_null_safe_witness:
  "buildPost \<lparr> id' = ''p'', properties = Some Map.empty \<rparr> = Inr (bare_post ''p'') \<and>
   buildPost \<lparr> id' = ''p'', properties = Some [''Page'' \<mapsto> no_value, ''Slug'' \<mapsto> no_value,
       ''Date'' \<mapsto> no_value, ''LastUpdatedDate'' \<mapsto> no_value, ''Excerpt'' \<mapsto> no_value,
       ''Category'' \<mapsto> no_value, ''Status'' \<mapsto> no_value, ''FeaturedImage'' \<mapsto> no_value,
       ''Rank'' \<mapsto> no_value] \<rparr> = Inr (bare_post ''p'')"
  using buildPost_null_safe[of "\<lparr> id' = ''p'', properties = Some Map.empty \<rparr>" Map.empty]
    buildPost_null_safe[of "\<lparr> id' = ''p'', properties = Some [''Page'' \<mapsto> no_value, ''Slug'' \<mapsto> no_value,
       ''Date'' \<mapsto> no_value, ''LastUpdatedDate'' \<mapsto> no_value, ''Excerpt'' \<mapsto> no_value,
       ''Category'' \<mapsto> no_value, ''Status'' \<mapsto> no_value, ''FeaturedImage'' \<mapsto> no_value,
       ''Rank'' \<mapsto> no_value] \<rparr>" "[''Page'' \<mapsto> no_value, ''Slug'' \<mapsto> no_value,
       ''Date'' \<mapsto> no_value, ''LastUpdatedDate'' \<mapsto> no_value, ''Excerpt'' \<mapsto> no_value,
       ''Category'' \<mapsto> no_value, ''Status'' \<mapsto> no_value, ''FeaturedImage'' \<mapsto> no_value,
       ''Rank'' \<mapsto> no_value]"]
  by (simp add: buildPost_def bare_post_def no_value_def joined_def)

text \<open>
  C6. \<^verbatim>\<open>getRankedPosts\<close> over a cached collection makes no remote call and returns
  \<open>ranked\<close> cut to the page size, where \<open>ranked\<close> holds exactly the posts of non-zero rank
  (as a multiset), is ordered by rank descending, and keeps the posts of any one rank in
  their cached order. The cut is \<^verbatim>\<open>slice(0, pageSize)\<close>, which for a page size \<open>n \<ge> 0\<close> is
  the first \<open>n\<close> elements.
\<close>

theorem getRankedPosts_spec:
  "postsCache s = Some posts \<Longrightarrow>
   \<exists>ranked.
     getRankedPosts cl pageSize s
       = Some (Inr (slice ranked 0 (pageSize_or_default pageSize)), s) \<and>
     (\<forall>n. 0 \<le> n \<and> pageSize = Some n \<longrightarrow>
        slice ranked 0 (pageSize_or_default pageSize) = take (nat n) ranked) \<and>
     mset ranked = mset (filter (\<lambda>post. Rank post \<noteq> 0) posts) \<and>
     sorted_wrt (\<lambda>a b. Rank a \<ge> Rank b) ranked \<and>
     (\<forall>k. filter (\<lambda>post. Rank post = k) ranked
            = filter (\<lambda>post. Rank post = k) (filter (\<lambda>post. Rank post \<noteq> 0) posts))"
proof -
  let ?cmp = "\<lambda>a b. Rank b - Rank a"
  let ?nz = "filter (\<lambda>post. Rank post \<noteq> 0) posts"
  let ?ranked = "js_sort ?cmp ?nz"
  assume cached: "postsCache s = Some posts"
  have run: "getRankedPosts cl pageSize s
      = Some (Inr (slice ?ranked 0 (pageSize_or_default pageSize)), s)"
    by (simp add: getRankedPosts_def with_allPosts_cached[OF cached])
  have cut: "\<forall>n. 0 \<le> n \<and> pageSize = Some n \<longrightarrow>
      slice ?ranked 0 (pageSize_or_default pageSize) = take (nat n) ?ranked"
    by (simp add: slice_0_nonneg pageSize_or_default_def)
  have perm: "mset ?ranked = mset ?nz" by (rule mset_js_sort)
  have "sorted_wrt (\<lambda>a b. ?cmp a b \<le> 0) ?ranked"
    by (rule sorted_js_sort) auto
  then have ord: "sorted_wrt (\<lambda>a b. Rank a \<ge> Rank b) ?ranked" by simp
  have stable: "\<forall>k. filter (\<lambda>post. Rank post = k) ?ranked = filter (\<lambda>post. Rank post = k) ?nz"
    by (intro allI stable_js_sort) simp
  from run cut perm ord stable show ?thesis by blast
qed

text \<open>
  The example of the specification: ranks 0, 5, 5, 3 in the order e1, e2, e3, e4 give
  e2, e3, e4.
\<close>

theorem getRankedPosts_spec_witness:
  "getRankedPosts (mock_client [] sample_db three_pages two_block_pages) (Some 10)
      ((initial 0)\<lparr> postsCache := Some four_posts \<rparr>)
     = Some (Inr [(bare_post ''e2'')\<lparr> Rank := 5 \<rparr>, (bare_post ''e3'')\<lparr> Rank := 5 \<rparr>,
                  (bare_post ''e4'')\<lparr> Rank := 3 \<rparr>],
             (initial 0)\<lparr> postsCache := Some four_posts \<rparr>)"
proof -
  have c: "postsCache ((initial (0::nat))\<lparr> postsCache := Some four_posts \<rparr>) = Some four_posts"
    by simp
  have e: "js_sort (\<lambda>a b. Rank b - Rank a) (filter (\<lambda>post. Rank post \<noteq> 0) four_posts)
      = [(bare_post ''e2'')\<lparr> Rank := 5 \<rparr>, (bare_post ''e3'')\<lparr> Rank := 5 \<rparr>,
                  (bare_post ''e4'')\<lparr> Rank := 3 \<rparr>]"
    by (simp add: js_sort_def four_posts_def bare_post_def)
  from getRankedPosts_spec[OF c, of "mock_client [] sample_db three_pages two_block_pages" "Some 10"]
  show ?thesis
    by (simp add: getRankedPosts_def with_allPosts_cached[OF c] e slice_0_nonneg pageSize_or_default_def)
qed

text \<open>
  C7. \<^verbatim>\<open>getAllTags\<close> over a cached collection, for a consistent \<^verbatim>\<open>localeCompare\<close>: the
  names of the result are exactly the names of the tags of all posts, each name occurs
  once, every tag returned is the first tag of that name in the flattened tag lists (in
  cache order), and the result is ascending under the comparator.
\<close>

theorem getAllTags_spec:
  "postsCache s = Some posts \<Longrightarrow> consistent localeCompare \<Longrightarrow>
   \<exists>tags.
     getAllTags cl localeCompare s = Some (Inr tags, s) \<and>
     set (map name tags) = set (map name (concat (map Tags posts))) \<and>
     distinct (map name tags) \<and>
     (\<forall>t \<in> set tags. find (\<lambda>u. name u = name t) (concat (map Tags posts)) = Some t) \<and>
     sorted_wrt (\<lambda>a b. localeCompare (name a) (name b) \<le> 0) tags"
proof -
  let ?flat = "concat (map Tags posts)"
  let ?cmp = "\<lambda>a b. localeCompare (name a) (name b)"
  assume cached: "postsCache s = Some posts" and cons: "consistent localeCompare"
  from tag_fold[of "[]" ?flat] obtain acc where
    fold: "foldl tag_step ([], []) ?flat = (acc, map name acc)"
    and dist: "distinct (map name acc)"
    and names: "set (map name acc) = set (map name ?flat)"
    and first: "\<forall>t \<in> set acc. find (\<lambda>u. name u = name t) ?flat = Some t"
    by auto
  let ?tags = "js_sort ?cmp acc"
  have run: "getAllTags cl localeCompare s = Some (Inr ?tags, s)"
    by (simp add: getAllTags_def with_allPosts_cached[OF cached] fold)
  have n: "set (map name ?tags) = set (map name ?flat)"
    using names by (simp add: set_js_sort)
  have d: "distinct (map name ?tags)"
    using dist by (simp add: distinct_names_js_sort)
  have f: "\<forall>t \<in> set ?tags. find (\<lambda>u. name u = name t) ?flat = Some t"
    using first by (simp add: set_js_sort)
  have tot: "\<And>a b. ?cmp a b \<le> 0 \<or> ?cmp b a \<le> 0"
    using cons unfolding consistent_def by blast
  have trans: "\<And>a b c. ?cmp a b \<le> 0 \<Longrightarrow> ?cmp b c \<le> 0 \<Longrightarrow> ?cmp a c \<le> 0"
    using cons unfolding consistent_def by blast
  have o: "sorted_wrt (\<lambda>a b. ?cmp a b \<le> 0) ?tags"
    using tot trans by (rule sorted_js_sort)
  from run n d f o show ?thesis by blast
qed

text \<open>
  Posts tagged B, C and A, B: the result is A, B, C with the first B (the red one).
\<close>

theorem getAllTags_spec_witness:
  "consistent code_compare \<and>
   getAllTags (mock_client [] sample_db three_pages two_block_pages) code_compare
      ((initial 0)\<lparr> postsCache := Some tagged_posts \<rparr>)
     = Some (Inr [tag ''A'' ''green'', tag ''B'' ''red'', tag ''C'' ''red''],
             (initial 0)\<lparr> postsCache := Some tagged_posts \<rparr>)"
proof -
  have c: "postsCache ((initial (0::nat))\<lparr> postsCache := Some tagged_posts \<rparr>) = Some tagged_posts"
    by simp
  have e: "js_sort (\<lambda>a b. code_compare (name a) (name b))
       (fst (foldl tag_step ([], []) (concat (map Tags tagged_posts))))
      = [tag ''A'' ''green'', tag ''B'' ''red'', tag ''C'' ''red'']"
    by (simp add: js_sort_def tagged_posts_def bare_post_def tag_step_def tag_def code_compare_def
        less_char_def)
  from getAllTags_spec[OF c consistent_code_compare,
      of "mock_client [] sample_db three_pages two_block_pages"]
  show ?thesis
    by (simp add: consistent_code_compare getAllTags_def with_allPosts_cached[OF c] e)
qed

text \<open>
  C8. The featured image. When the \<^verbatim>\<open>files\<close> member is absent or empty, \<open>FeaturedImage\<close> is
  \<open>None\<close> (\<^verbatim>\<open>null\<close>). Otherwise it is built from the first file element \<open>f\<close> alone: \<open>Url\<close> is
  the external URL when there is one; the URL of the internal (expiring) file is taken
  only when the element has no external URL (the empty string counts as none, being
  falsy); with neither, \<open>Url\<close> is empty. Whenever the element has an internal file, its
  expiry time is passed on as \<open>ExpiryTime\<close>.
\<close>

theorem featured_image_rule:
  "properties p = Some prop \<Longrightarrow>
   \<exists>post. buildPost p = Inr post \<and>
     (Option.bind (prop ''FeaturedImage'') files = None \<or>
      Option.bind (prop ''FeaturedImage'') files = Some [] \<longrightarrow> FeaturedImage post = None) \<and>
     (\<forall>fi f rest. prop ''FeaturedImage'' = Some fi \<and> files fi = Some (f # rest) \<longrightarrow>
        (\<exists>img. FeaturedImage post = Some img \<and> Type img = type fi \<and>
           (\<forall>e. external f = Some e \<and> url e \<noteq> [] \<longrightarrow> Url img = url e) \<and>
           (\<forall>i. (external f = None \<or> (\<exists>e. external f = Some e \<and> url e = [])) \<and> file' f = Some i
              \<longrightarrow> Url img = url i) \<and>
           ((external f = None \<or> (\<exists>e. external f = Some e \<and> url e = [])) \<and> file' f = None
              \<longrightarrow> Url img = []) \<and>
           (\<forall>i. file' f = Some i \<longrightarrow> ExpiryTime img = expiry_time i) \<and>
           (file' f = None \<longrightarrow> ExpiryTime img = None)))"
  by (auto simp: buildPost_def Let_def js_or_def str_or_def split: option.splits list.splits)

text \<open>
  An external file followed by an internal one, an internal file alone, and an empty
  \<^verbatim>\<open>files\<close> array.
\<close>

theorem featured_image_rule_witness:
  "(\<exists>post. buildPost (image_page
        [\<lparr> external = Some \<lparr> url = ''https://e/x.png'', expiry_time = None \<rparr>, file' = None \<rparr>,
         \<lparr> external = None, file' = Some \<lparr> url = ''https://s3/y.png'', expiry_time = Some ''2026-01-01'' \<rparr> \<rparr>])
        = Inr post \<and>
      FeaturedImage post = Some \<lparr> Type = ''files'', Url = ''https://e/x.png'', ExpiryTime = None \<rparr>) \<and>
   (\<exists>post. buildPost (image_page
        [\<lparr> external = None, file' = Some \<lparr> url = ''https://s3/y.png'', expiry_time = Some ''2026-01-01'' \<rparr> \<rparr>])
        = Inr post \<and>
      FeaturedImage post =
        Some \<lparr> Type = ''files'', Url = ''https://s3/y.png'', ExpiryTime = Some ''2026-01-01'' \<rparr>) \<and>
   (\<exists>post. buildPost (image_page []) = Inr post \<and> FeaturedImage post = None)"
proof -
  have p: "properties (image_page fs) =
      Some [''FeaturedImage'' \<mapsto> no_value\<lparr> type := ''files'', files := Some fs \<rparr>]" for fs
    by (simp add: image_page_def)
  show ?thesis
    using featured_image_rule[OF p, of "[\<lparr> external = Some \<lparr> url = ''https://e/x.png'', expiry_time = None \<rparr>, file' = None \<rparr>,
         \<lparr> external = None, file' = Some \<lparr> url = ''https://s3/y.png'', expiry_time = Some ''2026-01-01'' \<rparr> \<rparr>]"]
      featured_image_rule[OF p, of "[\<lparr> external = None, file' = Some \<lparr> url = ''https://s3/y.png'', expiry_time = Some ''2026-01-01'' \<rparr> \<rparr>]"]
      featured_image_rule[OF p, of "[]"]
    by (auto simp: no_value_def)
qed

text \<open>
  C9. Every page fetch is retried at most twice. \<^verbatim>\<open>getDatabase\<close> wraps its retrieval in
  \<^verbatim>\<open>retry\<close> with \<^verbatim>\<open>numberOfRetry\<close>, but the loop of \<^verbatim>\<open>getAllPosts\<close> calls the SDK directly.
  Against a service that rejects only the first call it receives, \<^verbatim>\<open>getAllPosts\<close>
  rejects after a single fetch, while \<^verbatim>\<open>getDatabase\<close> retrieves a second time and
  succeeds.
\<close>

theorem getAllPosts_does_not_retry:
  "getAllPosts (mock_client [0] sample_db three_pages two_block_pages) (initial 0)
     = Some (Inl (APIError ''timeout''),
             \<lparr> postsCache = None, dbCache = None, remote = 1,
               fetch_log = [QueryDatabase Absent] \<rparr>) \<and>
   getDatabase (mock_client [0] sample_db three_pages two_block_pages) (initial 0)
     = (Inr (buildDatabase sample_db),
        \<lparr> postsCache = None, dbCache = Some (buildDatabase sample_db), remote = 2,
          fetch_log = [RetrieveDatabase, RetrieveDatabase] \<rparr>)"
proof -
  let ?cl = "mock_client [0] sample_db three_pages two_block_pages"
  have f: "fails_after (databases_query ?cl) Absent (remote (initial (0::nat))) []
      (APIError ''timeout'') 1"
    by (simp add: mock_client_def answer_def initial_def)
  have n: "postsCache (initial (0::nat)) = None" by (simp add: initial_def)
  from getAllPosts_fails[OF n f]
  have "getAllPosts ?cl (initial 0)
     = Some (Inl (APIError ''timeout''),
             \<lparr> postsCache = None, dbCache = None, remote = 1,
               fetch_log = [QueryDatabase Absent] \<rparr>)"
    by (simp add: initial_def cursor_chain_def)
  moreover have "getDatabase ?cl (initial 0)
     = (Inr (buildDatabase sample_db),
        \<lparr> postsCache = None, dbCache = Some (buildDatabase sample_db), remote = 2,
          fetch_log = [RetrieveDatabase, RetrieveDatabase] \<rparr>)"
    by (simp add: getDatabase_def initial_def numberOfRetry_def numeral_2_eq_2 call_def
        mock_client_def answer_def)
  ultimately show ?thesis by simp
qed

text \<open>
  C10. \<^verbatim>\<open>getPostsByFilter\<close> does not look at its filter: two calls that differ only in the
  filter (of any two types) give the same result, which is that of \<^verbatim>\<open>getPosts\<close> with the
  same page size; over a cached collection and for a page size \<open>n \<ge> 0\<close> it is the first
  \<open>n\<close> cached posts.
\<close>

theorem getPostsByFilter_ignores_filter:
  "getPostsByFilter cl f1 pageSize s = getPostsByFilter cl f2 pageSize s \<and>
   getPostsByFilter cl f1 pageSize s = getPosts cl pageSize s \<and>
   (\<forall>posts n. postsCache s = Some posts \<and> 0 \<le> n \<longrightarrow>
      getPostsByFilter cl f1 (Some n) s = Some (Inr (take (nat n) posts), s))"
  by (simp add: getPostsByFilter_def getPosts_def with_allPosts_cached slice_0_nonneg
      pageSize_or_default_def)

text \<open>A string filter and a boolean one over the four cached posts, page size 2.\<close>

theorem getPostsByFilter_ignores_filter_witness:
  "getPostsByFilter (mock_client [] sample_db three_pages two_block_pages) ''Rank > 3'' (Some 2)
      ((initial 0)\<lparr> postsCache := Some four_posts \<rparr>)
     = Some (Inr [bare_post ''e1'', (bare_post ''e2'')\<lparr> Rank := 5 \<rparr>],
             (initial 0)\<lparr> postsCache := Some four_posts \<rparr>) \<and>
   getPostsByFilter (mock_client [] sample_db three_pages two_block_pages) True (Some 2)
      ((initial 0)\<lparr> postsCache := Some four_posts \<rparr>)
     = Some (Inr [bare_post ''e1'', (bare_post ''e2'')\<lparr> Rank := 5 \<rparr>],
             (initial 0)\<lparr> postsCache := Some four_posts \<rparr>)"
proof -
  let ?cl = "mock_client [] sample_db three_pages two_block_pages"
  let ?s = "(initial (0::nat))\<lparr> postsCache := Some four_posts \<rparr>"
  note rule = getPostsByFilter_ignores_filter[of ?cl "''Rank > 3''" "Some 2" ?s True]
  have c: "postsCache ?s = Some four_posts \<and> (0::int) \<le> 2" by simp
  from rule have same: "getPostsByFilter ?cl ''Rank > 3'' (Some 2) ?s
      = getPostsByFilter ?cl True (Some 2) ?s" by blast
  from rule c have "getPostsByFilter ?cl ''Rank > 3'' (Some 2) ?s
      = Some (Inr (take (nat 2) four_posts), ?s)" by blast
  then have first: "getPostsByFilter ?cl ''Rank > 3'' (Some 2) ?s
      = Some (Inr [bare_post ''e1'', (bare_post ''e2'')\<lparr> Rank := 5 \<rparr>], ?s)"
    by (simp add: four_posts_def)
  from first same show ?thesis by simp
qed

end
